theory Spec2Isabelle
  imports Main "HOL-Library.Word"
begin

unbundle bit_operations_syntax

section \<open>Wire primitives of structured.pb.go\<close>

text \<open>
  The codec of \<^verbatim>\<open>structured/structured.pb.go\<close> works on byte slices. A byte is an
  8-bit word, Go's \<^verbatim>\<open>uint64\<close> a 64-bit word, \<^verbatim>\<open>int32\<close> a 32-bit word read with
  \<open>sint\<close>/\<open>scast\<close>. Go's \<^verbatim>\<open>int\<close> is taken as 64 bits wide (the amd64 and arm64 ports): a
  local of type \<^verbatim>\<open>int\<close> that accumulates a varint is a 64-bit word read with \<open>sint\<close>, and the
  sums of an index and such a value wrap around (\<open>go_add\<close>). Lengths and indices that stay
  between 0 and \<^verbatim>\<open>len(data)\<close> are natural numbers. A slice and its nil value are both
  the list; a Go string is the list of its bytes.
\<close>

type_synonym byte = "8 word"

text \<open>
  The errors a call can end with: \<^verbatim>\<open>io.ErrUnexpectedEOF\<close>, \<^verbatim>\<open>ErrInvalidLengthStructured\<close>,
  the two \<^verbatim>\<open>fmt.Errorf\<close> values ("proto: wrong wireType = %d for field %s" and
  "proto: illegal wireType %d"), and a run-time panic (an index or slice bound out of
  range, \<^verbatim>\<open>panic("unreachable")\<close>).
\<close>

datatype error =
    ErrUnexpectedEOF
  | ErrInvalidLengthStructured
  | ErrWrongWireType nat string
  | ErrIllegalWireType nat
  | Panic

text \<open>Addition of two values of Go's 64-bit \<^verbatim>\<open>int\<close>, with its wrap-around.\<close>

definition go_add :: "int \<Rightarrow> int \<Rightarrow> int" where
  "go_add a b =
     (let s = a + b in
      if 2 ^ 63 \<le> s then s - 2 ^ 64 else if s < - (2 ^ 63) then s + 2 ^ 64 else s)"

text \<open>
  The varint read loop that the generated code repeats for every tag and every varint
  field:
  \<^verbatim>\<open>for shift := uint(0); ; shift += 7 {
       if iNdEx >= l { return io.ErrUnexpectedEOF }
       b := data[iNdEx]; iNdEx++
       x |= (T(b) & 0x7F) << shift
       if b < 0x80 { break } }\<close>
  \<open>acc\<close> is the variable \<^verbatim>\<open>x\<close> of type \<^verbatim>\<open>T\<close> (a word of T's width: a shift by the width
  or more gives 0 in Go and in \<open>push_bit\<close>). On end of input the loop returns the error
  together with what \<^verbatim>\<open>x\<close> holds by then, since \<^verbatim>\<open>x\<close> may be a field of the receiver.
\<close>

function decode_varint ::
  "byte list \<Rightarrow> nat \<Rightarrow> nat \<Rightarrow> 'a::len word \<Rightarrow> (error \<times> 'a word) + ('a word \<times> nat)" where
  "decode_varint data iNdEx shift acc =
     (if iNdEx \<ge> length data then Inl (ErrUnexpectedEOF, acc)
      else let b = data ! iNdEx;
               acc' = acc OR push_bit shift (ucast b AND 0x7F)
           in if b < 0x80 then Inr (acc', iNdEx + 1)
              else decode_varint data (iNdEx + 1) (shift + 7) acc')"
  by pat_completeness auto
termination
  by (relation "measure (\<lambda>(data, iNdEx, shift, acc). length data - iNdEx)") auto

declare decode_varint.simps [simp del]

lemma unat_drop_bit7: "unat (drop_bit 7 (x::64 word)) = unat x div 128"
  by (simp add: drop_bit_eq_div unat_div)

lemma unat_drop_bit7_less:
  fixes x :: "64 word"
  assumes "drop_bit 7 x \<noteq> 0"
  shows "unat (drop_bit 7 x) < unat x"
proof -
  from assms have "unat (drop_bit 7 x) \<noteq> 0"
    by (simp add: unat_eq_0)
  then have "unat x div 128 \<noteq> 0" by (simp add: unat_drop_bit7)
  then have "0 < unat x" by (cases "unat x = 0") auto
  then have "unat x div 128 < unat x" by simp
  then show ?thesis by (simp add: unat_drop_bit7)
qed

lemma ge128_iff: "(128 \<le> (v::64 word)) \<longleftrightarrow> drop_bit 7 v \<noteq> 0"
proof -
  have "(128 \<le> v) \<longleftrightarrow> 128 \<le> unat v" by (simp add: word_le_nat_alt)
  also have "\<dots> \<longleftrightarrow> unat v div 128 \<noteq> 0" by (auto simp add: div_eq_0_iff)
  also have "\<dots> \<longleftrightarrow> unat (drop_bit 7 v) \<noteq> 0" by (simp add: unat_drop_bit7)
  also have "\<dots> \<longleftrightarrow> drop_bit 7 v \<noteq> 0" by (simp add: unat_eq_0)
  finally show ?thesis .
qed

text \<open>
  \<^verbatim>\<open>func sovStructured(x uint64) (n int) { for { n++; x >>= 7; if x == 0 { break } }; return n }\<close>
\<close>

function sovStructured :: "64 word \<Rightarrow> nat" where
  "sovStructured x = (if drop_bit 7 x = 0 then 1 else 1 + sovStructured (drop_bit 7 x))"
  by pat_completeness auto
termination
  by (relation "measure unat") (auto simp: unat_drop_bit7_less)

declare sovStructured.simps [simp del]

text \<open>
  The loop of case 0 of \<^verbatim>\<open>skipStructured\<close>:
  \<^verbatim>\<open>for { if iNdEx >= l { return 0, io.ErrUnexpectedEOF }
          iNdEx++
          if data[iNdEx-1] < 0x80 { break } }\<close>
\<close>

function skip_varint :: "byte list \<Rightarrow> nat \<Rightarrow> error + nat" where
  "skip_varint data iNdEx =
     (if iNdEx \<ge> length data then Inl ErrUnexpectedEOF
      else if data ! iNdEx < 0x80 then Inr (iNdEx + 1)
      else skip_varint data (iNdEx + 1))"
  by pat_completeness auto
termination
  by (relation "measure (\<lambda>(data, iNdEx). length data - iNdEx)") auto

declare skip_varint.simps [simp del]

text \<open>
  \<^verbatim>\<open>skipStructured(data []byte) (n int, err error)\<close>. Every branch of the switch returns,
  so the body of \<^verbatim>\<open>for iNdEx < l\<close> runs at most once, from index 0; on an empty slice the
  function reaches \<^verbatim>\<open>panic("unreachable")\<close>. \<open>skip_group\<close> is the inner loop of case 3
  (a group), entered with \<^verbatim>\<open>start = iNdEx\<close>; at a negative index \<^verbatim>\<open>data[iNdEx]\<close> panics.
  The result is a Go \<^verbatim>\<open>int\<close> and can be negative after a wrap-around.

  \<^verbatim>\<open>len(data)\<close> is an \<^verbatim>\<open>int\<close>: a Go slice has fewer than \<open>2 ^ 63\<close> bytes. The first test of
  both functions gives the lists that are no Go slice a result of their own; no run of
  the program corresponds to it.
\<close>

function skipStructured :: "byte list \<Rightarrow> error + int"
  and skip_group :: "byte list \<Rightarrow> nat \<Rightarrow> error + int" where
  "skipStructured data =
     (if 2 ^ 63 \<le> length data then Inl Panic
      else if 0 < length data then
        (case decode_varint data 0 0 (0 :: 64 word) of
           Inl (e, _) \<Rightarrow> Inl e
         | Inr (wire, iNdEx) \<Rightarrow>
             let wireType = unat (wire AND 0x7) in
             if wireType = 0 then
               (case skip_varint data iNdEx of Inl e \<Rightarrow> Inl e | Inr iNdEx \<Rightarrow> Inr (int iNdEx))
             else if wireType = 1 then Inr (go_add (int iNdEx) 8)
             else if wireType = 2 then
               (case decode_varint data iNdEx 0 (0 :: 64 word) of
                  Inl (e, _) \<Rightarrow> Inl e
                | Inr (len, iNdEx) \<Rightarrow>
                    if sint len < 0 then Inl ErrInvalidLengthStructured
                    else Inr (go_add (int iNdEx) (sint len)))
             else if wireType = 3 then skip_group data iNdEx
             else if wireType = 4 then Inr (int iNdEx)
             else if wireType = 5 then Inr (go_add (int iNdEx) 4)
             else Inl (ErrIllegalWireType wireType))
      else Inl Panic)"
| "skip_group data start =
     (if 2 ^ 63 \<le> length data then Inl Panic
      else case decode_varint data start 0 (0 :: 64 word) of
        Inl (e, _) \<Rightarrow> Inl e
      | Inr (innerWire, iNdEx) \<Rightarrow>
          if unat (innerWire AND 0x7) = 4 then Inr (int iNdEx)
          else (case skipStructured (drop start data) of
              Inl e \<Rightarrow> Inl e
            | Inr next \<Rightarrow>
                let iNdEx = go_add (int start) next in
                if iNdEx < 0 then Inl Panic else skip_group data (nat iNdEx)))"
  by pat_completeness auto

lemma decode_varint_bounds:
  "decode_varint data i s (acc :: 'a::len word) = Inr (v, j) \<Longrightarrow> i < j \<and> j \<le> length data"
proof (induction data i s acc rule: decode_varint.induct)
  case (1 data iNdEx shift acc)
  from "1.prems" show ?case
    apply (subst (asm) decode_varint.simps)
    apply (simp split: if_splits add: Let_def del: push_bit_and)
    using "1.IH" apply (fastforce simp del: push_bit_and)
    done
qed

lemma skip_varint_bounds:
  "skip_varint data i = Inr j \<Longrightarrow> i < j \<and> j \<le> length data"
proof (induction data i rule: skip_varint.induct)
  case (1 data iNdEx)
  from "1.prems" show ?case
    apply (subst (asm) skip_varint.simps)
    apply (simp split: if_splits)
    using "1.IH" apply fastforce
    done
qed

lemma go_add_nonneg:
  assumes "0 \<le> a" "a < 2 ^ 63" "0 \<le> b" "b < 2 ^ 63"
  shows "(go_add a b = a + b \<and> a + b < 2 ^ 63) \<or> (go_add a b = a + b - 2 ^ 64 \<and> 2 ^ 63 \<le> a + b)"
  using assms by (simp add: go_add_def Let_def)

lemma skip_result_dom:
  "skipStructured_skip_group_dom (Inl data) \<Longrightarrow>
     (\<forall>n. skipStructured data = Inr n \<longrightarrow>
        (1 \<le> n \<and> n < 2 ^ 63) \<or> (- (2 ^ 63) \<le> n \<and> n < int (length data) - 2 ^ 63))"
  "skipStructured_skip_group_dom (Inr (data, start)) \<Longrightarrow>
     (\<forall>n. skip_group data start = Inr n \<longrightarrow> int start < n \<and> n \<le> int (length data))"
proof (induction rule: skipStructured_skip_group.pinduct)
  case (1 data)
  show ?case
  proof (intro allI impI)
    fix n assume r: "skipStructured data = Inr n"
    from r have nb: "\<not> 2 ^ 63 \<le> length data" and pos: "0 < length data"
      by (auto simp: skipStructured.psimps [OF "1.hyps"] split: if_splits)
    from r nb pos obtain wire i where d: "decode_varint data 0 0 (0::64 word) = Inr (wire, i)"
      by (auto simp: skipStructured.psimps [OF "1.hyps"] split: sum.splits prod.splits)
    from decode_varint_bounds [OF d] have ib: "0 < i" "i \<le> length data" by auto
    define wt where "wt = unat (wire AND 0x7)"
    consider "wt = 0" | "wt = 1" | "wt = 2" | "wt = 3" | "wt = 4" | "wt = 5" | "wt \<notin> {0,1,2,3,4,5}"
      by auto
    then show "(1 \<le> n \<and> n < 2 ^ 63) \<or> (- (2 ^ 63) \<le> n \<and> n < int (length data) - 2 ^ 63)"
    proof cases
      case 1
      with r nb pos d obtain j where "skip_varint data i = Inr j" "n = int j"
        by (auto simp: skipStructured.psimps [OF "1.hyps"] wt_def split: sum.splits)
      with skip_varint_bounds [of data i j] ib nb show ?thesis by auto
    next
      case 2
      with r nb pos d have "n = go_add (int i) 8"
        by (auto simp: skipStructured.psimps [OF "1.hyps"] wt_def)
      with ib nb show ?thesis by (auto simp: go_add_def Let_def)
    next
      case 3
      with r nb pos d obtain len j where l: "decode_varint data i 0 (0::64 word) = Inr (len, j)"
        "\<not> sint len < 0" "n = go_add (int j) (sint len)"
        by (auto simp: skipStructured.psimps [OF "1.hyps"] wt_def split: sum.splits prod.splits if_splits)
      from decode_varint_bounds [OF l(1)] have jb: "i < j" "j \<le> length data" by auto
      have sl: "sint len < 2 ^ 63" using sint_lt [of len] by simp
      with l(2) jb nb have "(go_add (int j) (sint len) = int j + sint len \<and> int j + sint len < 2 ^ 63)
           \<or> (go_add (int j) (sint len) = int j + sint len - 2 ^ 64 \<and> 2 ^ 63 \<le> int j + sint len)"
        by (intro go_add_nonneg) auto
      with l(2,3) jb ib nb sl show ?thesis by auto
    next
      case 4
      with r nb pos d have "skip_group data i = Inr n"
        by (auto simp: skipStructured.psimps [OF "1.hyps"] wt_def)
      moreover have "\<forall>n. skip_group data i = Inr n \<longrightarrow> int i < n \<and> n \<le> int (length data)"
        using "1.IH" [OF nb pos d refl] 4 by (simp add: wt_def)
      ultimately show ?thesis using ib nb by auto
    next
      case 5
      with r nb pos d have "n = int i"
        by (auto simp: skipStructured.psimps [OF "1.hyps"] wt_def)
      with ib nb show ?thesis by auto
    next
      case 6
      with r nb pos d have "n = go_add (int i) 4"
        by (auto simp: skipStructured.psimps [OF "1.hyps"] wt_def)
      with ib nb show ?thesis by (auto simp: go_add_def Let_def)
    next
      case 7
      with r nb pos d show ?thesis
        by (auto simp: skipStructured.psimps [OF "1.hyps"] wt_def)
    qed
  qed
next
  case (2 data start)
  show ?case
  proof (intro allI impI)
    fix n assume r: "skip_group data start = Inr n"
    from r have nb: "\<not> 2 ^ 63 \<le> length data"
      by (auto simp: skip_group.psimps [OF "2.hyps"] split: if_splits)
    from r nb obtain wire i where d: "decode_varint data start 0 (0::64 word) = Inr (wire, i)"
      by (auto simp: skip_group.psimps [OF "2.hyps"] split: sum.splits prod.splits)
    from decode_varint_bounds [OF d] have ib: "start < i" "i \<le> length data" by auto
    show "int start < n \<and> n \<le> int (length data)"
    proof (cases "unat (wire AND 0x7) = 4")
      case True
      with r nb d have "n = int i"
        by (auto simp: skip_group.psimps [OF "2.hyps"])
      with ib show ?thesis by auto
    next
      case False
      with r nb d obtain nxt where nx: "skipStructured (drop start data) = Inr nxt"
        "\<not> go_add (int start) nxt < 0" "skip_group data (nat (go_add (int start) nxt)) = Inr n"
        by (auto simp: skip_group.psimps [OF "2.hyps"] Let_def split: sum.splits if_splits)
      from "2.IH"(1) [OF nb d refl False] nx(1)
      have nr: "(1 \<le> nxt \<and> nxt < 2 ^ 63) \<or> (- (2 ^ 63) \<le> nxt \<and> nxt < int (length (drop start data)) - 2 ^ 63)" by blast
      with nx(2) ib nb have g: "int start < go_add (int start) nxt"
        by (auto simp: go_add_def Let_def split: if_splits)
      from "2.IH"(2) [OF nb d refl False nx(1) refl nx(2)] nx(3)
      have "int (nat (go_add (int start) nxt)) < n \<and> n \<le> int (length data)" by blast
      with g show ?thesis by auto
    qed
  qed
qed

lemma skip_group_progress:
  assumes "skipStructured_skip_group_dom (Inl (drop start data))"
    and "skipStructured (drop start data) = Inr nxt"
    and "\<not> 2 ^ 63 \<le> length data" and "start < length data"
    and "\<not> go_add (int start) nxt < 0"
  shows "start < nat (go_add (int start) nxt)"
proof -
  from skip_result_dom(1) [OF assms(1)] assms(2)
  have "(1 \<le> nxt \<and> nxt < 2 ^ 63) \<or> (- (2 ^ 63) \<le> nxt \<and> nxt < int (length (drop start data)) - 2 ^ 63)" by blast
  with assms(3,4,5) show ?thesis
    by (auto simp: go_add_def Let_def split: if_splits)
qed

lemma skipStructured_skip_group_total: "All skipStructured_skip_group_dom"
proof (relation "measures [\<lambda>x. case x of Inl data \<Rightarrow> length data | Inr (data, i) \<Rightarrow> length data - i,
                            \<lambda>x. case x of Inl _ \<Rightarrow> 0 | Inr _ \<Rightarrow> 1]", goal_cases)
  case 1
  then show ?case by simp
next
  case (2 data b x y xa)
  then show ?case using decode_varint_bounds [of data 0 0 0 x y] by auto
next
  case (3 data start b x y)
  then show ?case by auto
next
  case (4 data start b x y ba xa)
  then show ?case
    using decode_varint_bounds [of data start 0 0 x y] skip_group_progress [of start data ba]
    by auto
qed

termination skipStructured
  by (rule skipStructured_skip_group_total)

declare skipStructured.simps [simp del] skip_group.simps [simp del]

lemma skipStructured_result:
  "skipStructured data = Inr n \<Longrightarrow>
     (1 \<le> n \<and> n < 2 ^ 63) \<or> (- (2 ^ 63) \<le> n \<and> n < int (length data) - 2 ^ 63)"
proof -
  assume r: "skipStructured data = Inr n"
  have "All skipStructured_skip_group_dom" by (rule skipStructured_skip_group_total)
  then have "skipStructured_skip_group_dom (Inl data)" by (rule spec)
  from skip_result_dom(1) [OF this] r show ?thesis by blast
qed


lemma skipStructured_Inr_length:
  "skipStructured data = Inr n \<Longrightarrow> length data < 2 ^ 63"
  by (subst (asm) skipStructured.simps) (simp split: if_splits)

section \<open>Reading fields\<close>

text \<open>
  The blocks that the generated \<^verbatim>\<open>Unmarshal\<close> methods repeat for every field. Each takes the
  slice and the index behind the tag and gives the error, or the value and the new index.

  A string or bytes field:
  \<^verbatim>\<open>var stringLen uint64; (varint loop)
     postIndex := iNdEx + int(stringLen)
     if postIndex > l { return io.ErrUnexpectedEOF }
     ... string(data[iNdEx:postIndex]); iNdEx = postIndex\<close>
  The slice expression panics when \<^verbatim>\<open>postIndex < iNdEx\<close>.
\<close>

definition read_bytes :: "byte list \<Rightarrow> nat \<Rightarrow> error + (byte list \<times> nat)" where
  "read_bytes data iNdEx =
     (case decode_varint data iNdEx 0 (0 :: 64 word) of
        Inl (e, _) \<Rightarrow> Inl e
      | Inr (stringLen, iNdEx) \<Rightarrow>
          let postIndex = go_add (int iNdEx) (sint stringLen) in
          if postIndex > int (length data) then Inl ErrUnexpectedEOF
          else if postIndex < int iNdEx then Inl Panic
          else Inr (take (nat postIndex - iNdEx) (drop iNdEx data), nat postIndex))"

text \<open>
  A nested message:
  \<^verbatim>\<open>var msglen int; (varint loop)
     postIndex := iNdEx + msglen
     if msglen < 0 { return ErrInvalidLengthStructured }
     if postIndex > l { return io.ErrUnexpectedEOF }
     ... Unmarshal(data[iNdEx:postIndex]) ...; iNdEx = postIndex\<close>
\<close>

definition read_msg :: "byte list \<Rightarrow> nat \<Rightarrow> error + (byte list \<times> nat)" where
  "read_msg data iNdEx =
     (case decode_varint data iNdEx 0 (0 :: 64 word) of
        Inl (e, _) \<Rightarrow> Inl e
      | Inr (msglen, iNdEx) \<Rightarrow>
          let postIndex = go_add (int iNdEx) (sint msglen) in
          if sint msglen < 0 then Inl ErrInvalidLengthStructured
          else if postIndex > int (length data) then Inl ErrUnexpectedEOF
          else if postIndex < int iNdEx then Inl Panic
          else Inr (take (nat postIndex - iNdEx) (drop iNdEx data), nat postIndex))"

text \<open>
  The default case, for a field number the message does not know:
  \<^verbatim>\<open>var sizeOfWire int
     for { sizeOfWire++; wire >>= 7; if wire == 0 { break } }
     iNdEx -= sizeOfWire
     skippy, err := skipStructured(data[iNdEx:])
     if err != nil { return err }
     if skippy < 0 { return ErrInvalidLengthStructured }
     if (iNdEx + skippy) > l { return io.ErrUnexpectedEOF }
     m.XXX_unrecognized = append(m.XXX_unrecognized, data[iNdEx:iNdEx+skippy]...)
     iNdEx += skippy\<close>
  The loop that counts \<^verbatim>\<open>sizeOfWire\<close> is the loop of \<open>sovStructured\<close>. The function gives
  the bytes to append and the new index.
\<close>

definition skip_unknown :: "byte list \<Rightarrow> nat \<Rightarrow> 64 word \<Rightarrow> error + (byte list \<times> nat)" where
  "skip_unknown data iNdEx wire =
     (let sizeOfWire = sovStructured wire;
          iNdEx = int iNdEx - int sizeOfWire
      in if iNdEx < 0 then Inl Panic
         else case skipStructured (drop (nat iNdEx) data) of
             Inl e \<Rightarrow> Inl e
           | Inr skippy \<Rightarrow>
               if skippy < 0 then Inl ErrInvalidLengthStructured
               else if go_add iNdEx skippy > int (length data) then Inl ErrUnexpectedEOF
               else if go_add iNdEx skippy < iNdEx then Inl Panic
               else Inr (take (nat (go_add iNdEx skippy) - nat iNdEx) (drop (nat iNdEx) data),
                         nat (go_add iNdEx skippy)))"

text \<open>
  A varint field decoded into the receiver's field itself (\<^verbatim>\<open>m.F = 0\<close>, then the loop on
  \<^verbatim>\<open>m.F\<close>): at the end of input the field holds what was read by then. \<open>upd\<close> stores a
  value in the field.
\<close>

definition field_varint ::
  "byte list \<Rightarrow> nat \<Rightarrow> ('a::len word \<Rightarrow> 'm) \<Rightarrow> ('m \<times> error) + ('m \<times> nat)" where
  "field_varint data iNdEx upd =
     (case decode_varint data iNdEx 0 0 of
        Inl (e, v) \<Rightarrow> Inl (upd v, e)
      | Inr (v, iNdEx) \<Rightarrow> Inr (upd v, iNdEx))"

text \<open>A varint decoded into a local variable first (\<^verbatim>\<open>var v ID\<close>, then \<^verbatim>\<open>append\<close>).\<close>

definition local_varint ::
  "byte list \<Rightarrow> nat \<Rightarrow> 'm \<Rightarrow> ('a::len word \<Rightarrow> 'm) \<Rightarrow> ('m \<times> error) + ('m \<times> nat)" where
  "local_varint data iNdEx m upd =
     (case decode_varint data iNdEx 0 0 of
        Inl (e, _) \<Rightarrow> Inl (m, e)
      | Inr (v, iNdEx) \<Rightarrow> Inr (upd v, iNdEx))"

text \<open>A boolean: \<^verbatim>\<open>var v int\<close>, the varint loop, then \<^verbatim>\<open>m.F = bool(v != 0)\<close>.\<close>

definition field_bool ::
  "byte list \<Rightarrow> nat \<Rightarrow> 'm \<Rightarrow> (bool \<Rightarrow> 'm) \<Rightarrow> ('m \<times> error) + ('m \<times> nat)" where
  "field_bool data iNdEx m upd =
     (case decode_varint data iNdEx 0 (0 :: 64 word) of
        Inl (e, _) \<Rightarrow> Inl (m, e)
      | Inr (v, iNdEx) \<Rightarrow> Inr (upd (v \<noteq> 0), iNdEx))"

definition field_bytes ::
  "byte list \<Rightarrow> nat \<Rightarrow> 'm \<Rightarrow> (byte list \<Rightarrow> 'm) \<Rightarrow> ('m \<times> error) + ('m \<times> nat)" where
  "field_bytes data iNdEx m upd =
     (case read_bytes data iNdEx of
        Inl e \<Rightarrow> Inl (m, e)
      | Inr (s, iNdEx) \<Rightarrow> Inr (upd s, iNdEx))"

text \<open>
  A nested message: \<open>sub\<close> is the nested \<^verbatim>\<open>Unmarshal\<close> applied to the nested value, which
  is a part of the receiver. \<open>upd\<close> stores the nested value back, also when the nested call
  fails.
\<close>

definition field_msg ::
  "byte list \<Rightarrow> nat \<Rightarrow> 'm \<Rightarrow> (byte list \<Rightarrow> 'x \<times> error option) \<Rightarrow> ('x \<Rightarrow> 'm)
     \<Rightarrow> ('m \<times> error) + ('m \<times> nat)" where
  "field_msg data iNdEx m sub upd =
     (case read_msg data iNdEx of
        Inl e \<Rightarrow> Inl (m, e)
      | Inr (bs, iNdEx) \<Rightarrow>
          (case sub bs of
             (x, Some e) \<Rightarrow> Inl (upd x, e)
           | (x, None) \<Rightarrow> Inr (upd x, iNdEx)))"

definition field_unknown ::
  "byte list \<Rightarrow> nat \<Rightarrow> 64 word \<Rightarrow> 'm \<Rightarrow> (byte list \<Rightarrow> 'm) \<Rightarrow> ('m \<times> error) + ('m \<times> nat)" where
  "field_unknown data iNdEx wire m upd =
     (case skip_unknown data iNdEx wire of
        Inl e \<Rightarrow> Inl (m, e)
      | Inr (bs, iNdEx) \<Rightarrow> Inr (upd bs, iNdEx))"

subsection \<open>Every field moves the index forward\<close>

lemma decode_varint_bits:
  "decode_varint data i s (acc :: 'a::len word) = Inr (v, j) \<Longrightarrow>
   (\<forall>n. bit acc n \<longrightarrow> n < s) \<Longrightarrow> (\<forall>n. bit v n \<longrightarrow> n < s + 7 * (j - i))"
proof (induction data i s acc rule: decode_varint.induct)
  case (1 data iNdEx shift acc)
  let ?b = "data ! iNdEx"
  let ?acc = "acc OR push_bit shift (ucast ?b AND 0x7F)"
  from "1.prems"(1) have il: "iNdEx < length data"
    by (subst (asm) decode_varint.simps) (simp split: if_splits)
  have w127: "\<And>n. bit (127 :: 'a word) n \<Longrightarrow> n < 7"
  proof -
    fix n assume b: "bit (127 :: 'a word) n"
    have "(127 :: 'a word) = mask 7" by (simp add: mask_eq_exp_minus_1)
    with b have "bit (mask 7 :: 'a word) n" by simp
    then show "n < 7" by (simp add: bit_simps)
  qed
  have accb: "\<forall>n. bit ?acc n \<longrightarrow> n < shift + 7"
  proof (intro allI impI)
    fix n assume "bit ?acc n"
    then have "bit acc n \<or> (shift \<le> n \<and> bit (127 :: 'a word) (n - shift))"
      by (auto simp: bit_simps simp del: bit_numeral_word_iff)
    then show "n < shift + 7"
    proof
      assume "bit acc n"
      with "1.prems"(2) show ?thesis by fastforce
    next
      assume "shift \<le> n \<and> bit (127 :: 'a word) (n - shift)"
      with w127 [of "n - shift"] show ?thesis by auto
    qed
  qed
  show ?case
  proof (cases "?b < 0x80")
    case True
    with "1.prems"(1) il have "v = ?acc" "j = iNdEx + 1"
      by (subst (asm) decode_varint.simps, simp add: Let_def del: push_bit_and)+
    with accb show ?thesis by simp
  next
    case False
    with "1.prems"(1) il have r: "decode_varint data (iNdEx + 1) (shift + 7) ?acc = Inr (v, j)"
      by (subst (asm) decode_varint.simps) (simp add: Let_def del: push_bit_and)
    from decode_varint_bounds [OF r] have "iNdEx + 1 < j" by simp
    then have e: "shift + 7 + 7 * (j - (iNdEx + 1)) = shift + 7 * (j - iNdEx)" by arith
    have "\<forall>n. bit v n \<longrightarrow> n < shift + 7 + 7 * (j - (iNdEx + 1))"
      using "1.IH" [OF _ refl refl False r accb] il by simp
    then show ?thesis unfolding e .
  qed
qed

lemma sovStructured_le:
  "(\<forall>n. bit x n \<longrightarrow> n < 7 * k) \<Longrightarrow> 0 < k \<Longrightarrow> sovStructured x \<le> k"
proof (induction k arbitrary: x)
  case 0
  then show ?case by simp
next
  case (Suc k)
  show ?case
  proof (cases "drop_bit 7 x = 0")
    case True
    then show ?thesis by (subst sovStructured.simps) simp
  next
    case False
    then obtain n where n: "bit (drop_bit 7 x) n" by (auto simp: bit_eq_iff)
    then have "bit x (7 + n)" by (simp add: bit_simps)
    with Suc.prems(1) have "7 + n < 7 * Suc k" by blast
    then have kpos: "0 < k" by (cases k) auto
    have "\<forall>n. bit (drop_bit 7 x) n \<longrightarrow> n < 7 * k"
    proof (intro allI impI)
      fix m assume "bit (drop_bit 7 x) m"
      then have "bit x (7 + m)" by (simp add: bit_simps)
      with Suc.prems(1) have "7 + m < 7 * Suc k" by blast
      then show "m < 7 * k" by simp
    qed
    from Suc.IH [OF this kpos] False show ?thesis
      by (subst sovStructured.simps) simp
  qed
qed

lemma sovStructured_pos: "0 < sovStructured x"
  by (subst sovStructured.simps) simp

lemma sovStructured_tag:
  assumes "decode_varint data start 0 (0 :: 64 word) = Inr (wire, i)"
  shows "sovStructured wire \<le> i - start"
proof -
  from decode_varint_bounds [OF assms] have "start < i" by simp
  moreover from decode_varint_bits [OF assms] have "\<forall>n. bit wire n \<longrightarrow> n < 7 * (i - start)"
    by simp
  ultimately show ?thesis by (intro sovStructured_le) auto
qed

lemma read_bytes_bounds:
  "read_bytes data i = Inr (s, j) \<Longrightarrow> i < j \<and> j \<le> length data"
  by (auto simp: read_bytes_def Let_def split: sum.splits prod.splits if_splits
      dest!: decode_varint_bounds)

lemma read_msg_bounds:
  "read_msg data i = Inr (s, j) \<Longrightarrow> i < j \<and> j \<le> length data"
  by (auto simp: read_msg_def Let_def split: sum.splits prod.splits if_splits
      dest!: decode_varint_bounds)

lemma skip_unknown_bounds:
  assumes t: "decode_varint data start 0 (0 :: 64 word) = Inr (wire, i)"
    and s: "skip_unknown data i wire = Inr (bs, j)"
  shows "start < j \<and> j \<le> length data"
proof -
  define rw where "rw = int i - int (sovStructured wire)"
  from sovStructured_tag [OF t] decode_varint_bounds [OF t]
  have b: "int start \<le> rw" "rw < int i" "i \<le> length data"
    using sovStructured_pos [of wire] by (auto simp: rw_def)
  from s b obtain skippy where k: "skipStructured (drop (nat rw) data) = Inr skippy"
    "\<not> skippy < 0" "\<not> go_add rw skippy > int (length data)"
    "\<not> go_add rw skippy < rw" "j = nat (go_add rw skippy)"
    by (auto simp: skip_unknown_def Let_def rw_def split: sum.splits if_splits)
  from skipStructured_result [OF k(1)] skipStructured_Inr_length [OF k(1)] k(2)
  have "1 \<le> skippy" "skippy < 2 ^ 63" by auto
  with k(4) b(1) have "rw < go_add rw skippy"
    by (auto simp: go_add_def Let_def split: if_splits)
  with k(3,5) b show ?thesis by auto
qed

lemma field_varint_bounds:
  "field_varint data i upd = Inr (m', j) \<Longrightarrow> i < j \<and> j \<le> length data"
  by (auto simp: field_varint_def split: sum.splits prod.splits dest!: decode_varint_bounds)

lemma local_varint_bounds:
  "local_varint data i m upd = Inr (m', j) \<Longrightarrow> i < j \<and> j \<le> length data"
  by (auto simp: local_varint_def split: sum.splits prod.splits dest!: decode_varint_bounds)

lemma field_bool_bounds:
  "field_bool data i m upd = Inr (m', j) \<Longrightarrow> i < j \<and> j \<le> length data"
  by (auto simp: field_bool_def split: sum.splits prod.splits dest!: decode_varint_bounds)

lemma field_bytes_bounds:
  "field_bytes data i m upd = Inr (m', j) \<Longrightarrow> i < j \<and> j \<le> length data"
  by (auto simp: field_bytes_def split: sum.splits prod.splits dest!: read_bytes_bounds)

lemma field_msg_bounds:
  "field_msg data i m sub upd = Inr (m', j) \<Longrightarrow> i < j \<and> j \<le> length data"
  by (auto simp: field_msg_def split: sum.splits prod.splits option.splits dest!: read_msg_bounds)

lemma field_unknown_bounds:
  "decode_varint data start 0 (0 :: 64 word) = Inr (wire, i) \<Longrightarrow>
   field_unknown data i wire m upd = Inr (m', j) \<Longrightarrow> start < j \<and> j \<le> length data"
  by (auto simp: field_unknown_def split: sum.splits prod.splits dest: skip_unknown_bounds)


section \<open>The descriptors\<close>

text \<open>
  Modelled from the spec: the declaration of the integer type \<^verbatim>\<open>ID\<close> (the \<^verbatim>\<open>casttype\<close> of the
  varint fields \<^verbatim>\<open>id\<close>, \<^verbatim>\<open>column_ids\<close>, \<^verbatim>\<open>next_column_id\<close> and \<^verbatim>\<open>next_index_id\<close>) is not
  among the sources. The spec describes an id as a positive integer carried as a varint;
  it is taken here as an unsigned 32-bit integer, so that \<^verbatim>\<open>uint64(m.ID)\<close> is \<open>ucast\<close>.
\<close>

type_synonym ID = "32 word"

text \<open>
  The structs. \<^verbatim>\<open>ColumnType_Kind\<close> is an \<^verbatim>\<open>int32\<close>; a \<^verbatim>\<open>string\<close> is the list of its bytes.
  Field names carry a prefix of their struct, since two records cannot share a field
  name: \<open>ct_Kind\<close> is \<^verbatim>\<open>ColumnType.Kind\<close>. The embedded \<^verbatim>\<open>PrivilegeDescriptor\<close> of a table or
  database is the field \<open>td_PrivilegeDescriptor\<close> or \<open>dd_PrivilegeDescriptor\<close>.
\<close>

record ColumnType =
  ct_Kind :: "32 word"
  ct_Width :: "32 word"
  ct_Precision :: "32 word"
  ct_XXX_unrecognized :: "byte list"

record ColumnDescriptor =
  cd_Name :: "byte list"
  cd_ID :: ID
  cd_Type :: ColumnType
  cd_Nullable :: bool
  cd_XXX_unrecognized :: "byte list"

record IndexDescriptor =
  ix_Name :: "byte list"
  ix_ID :: ID
  ix_Unique :: bool
  ix_ColumnNames :: "byte list list"
  ix_ColumnIDs :: "ID list"
  ix_XXX_unrecognized :: "byte list"

record PrivilegeDescriptor =
  pd_Read :: "byte list list"
  pd_Write :: "byte list list"
  pd_XXX_unrecognized :: "byte list"

record TableDescriptor =
  td_Name :: "byte list"
  td_ID :: ID
  td_Columns :: "ColumnDescriptor list"
  td_NextColumnID :: ID
  td_PrimaryIndex :: IndexDescriptor
  td_Indexes :: "IndexDescriptor list"
  td_NextIndexID :: ID
  td_PrivilegeDescriptor :: PrivilegeDescriptor
  td_XXX_unrecognized :: "byte list"

record DatabaseDescriptor =
  dd_Name :: "byte list"
  dd_ID :: ID
  dd_PrivilegeDescriptor :: PrivilegeDescriptor
  dd_XXX_unrecognized :: "byte list"

text \<open>The zero values \<^verbatim>\<open>ColumnType{}\<close>, \<^verbatim>\<open>ColumnDescriptor{}\<close>, and so on.\<close>

definition ColumnType_zero :: ColumnType where
  "ColumnType_zero = \<lparr>ct_Kind = 0, ct_Width = 0, ct_Precision = 0, ct_XXX_unrecognized = []\<rparr>"

definition ColumnDescriptor_zero :: ColumnDescriptor where
  "ColumnDescriptor_zero =
     \<lparr>cd_Name = [], cd_ID = 0, cd_Type = ColumnType_zero, cd_Nullable = False,
      cd_XXX_unrecognized = []\<rparr>"

definition IndexDescriptor_zero :: IndexDescriptor where
  "IndexDescriptor_zero =
     \<lparr>ix_Name = [], ix_ID = 0, ix_Unique = False, ix_ColumnNames = [], ix_ColumnIDs = [],
      ix_XXX_unrecognized = []\<rparr>"

definition PrivilegeDescriptor_zero :: PrivilegeDescriptor where
  "PrivilegeDescriptor_zero = \<lparr>pd_Read = [], pd_Write = [], pd_XXX_unrecognized = []\<rparr>"

definition TableDescriptor_zero :: TableDescriptor where
  "TableDescriptor_zero =
     \<lparr>td_Name = [], td_ID = 0, td_Columns = [], td_NextColumnID = 0,
      td_PrimaryIndex = IndexDescriptor_zero, td_Indexes = [], td_NextIndexID = 0,
      td_PrivilegeDescriptor = PrivilegeDescriptor_zero, td_XXX_unrecognized = []\<rparr>"

definition DatabaseDescriptor_zero :: DatabaseDescriptor where
  "DatabaseDescriptor_zero =
     \<lparr>dd_Name = [], dd_ID = 0, dd_PrivilegeDescriptor = PrivilegeDescriptor_zero,
      dd_XXX_unrecognized = []\<rparr>"

section \<open>Unmarshal\<close>

text \<open>
  \<^verbatim>\<open>func (m *T) Unmarshal(data []byte) error\<close> updates the receiver in place and returns
  an error or nil. The model takes the receiver and gives the receiver as the call leaves
  it, with the error (\<open>None\<close> is nil). \<open>T_field\<close> is one pass through the body of
  \<^verbatim>\<open>for iNdEx < l\<close>: the tag, then the switch on \<^verbatim>\<open>fieldNum := int32(wire >> 3)\<close> with
  \<^verbatim>\<open>wireType := int(wire & 0x7)\<close>. It gives the receiver and the error of a \<^verbatim>\<open>return\<close>,
  or the receiver and the index for the next pass.
\<close>

definition ColumnType_field ::
  "byte list \<Rightarrow> nat \<Rightarrow> ColumnType \<Rightarrow> (ColumnType \<times> error) + (ColumnType \<times> nat)" where
  "ColumnType_field data iNdEx m =
     (case decode_varint data iNdEx 0 (0 :: 64 word) of
        Inl (e, _) \<Rightarrow> Inl (m, e)
      | Inr (wire, iNdEx) \<Rightarrow>
          let fieldNum = (ucast (drop_bit 3 wire) :: 32 word);
              wireType = unat (wire AND 0x7)
          in if fieldNum = 1 then
               (if wireType \<noteq> 0 then Inl (m, ErrWrongWireType wireType ''Kind'')
                else field_varint data iNdEx (\<lambda>v. m\<lparr>ct_Kind := v\<rparr>))
             else if fieldNum = 2 then
               (if wireType \<noteq> 0 then Inl (m, ErrWrongWireType wireType ''Width'')
                else field_varint data iNdEx (\<lambda>v. m\<lparr>ct_Width := v\<rparr>))
             else if fieldNum = 3 then
               (if wireType \<noteq> 0 then Inl (m, ErrWrongWireType wireType ''Precision'')
                else field_varint data iNdEx (\<lambda>v. m\<lparr>ct_Precision := v\<rparr>))
             else field_unknown data iNdEx wire m
                    (\<lambda>bs. m\<lparr>ct_XXX_unrecognized := ct_XXX_unrecognized m @ bs\<rparr>))"

lemma ColumnType_field_bounds:
  "ColumnType_field data i m = Inr (m', j) \<Longrightarrow> i < j \<and> j \<le> length data"
  unfolding ColumnType_field_def Let_def
  by (auto split: sum.splits prod.splits if_splits
      dest!: field_varint_bounds local_varint_bounds field_bool_bounds field_bytes_bounds
             field_msg_bounds
      dest: field_unknown_bounds decode_varint_bounds)

function ColumnType_Unmarshal_loop ::
  "byte list \<Rightarrow> nat \<Rightarrow> ColumnType \<Rightarrow> ColumnType \<times> error option" where
  "ColumnType_Unmarshal_loop data iNdEx m =
     (if iNdEx < length data then
        (case ColumnType_field data iNdEx m of
           Inl (m, e) \<Rightarrow> (m, Some e)
         | Inr (m, iNdEx) \<Rightarrow> ColumnType_Unmarshal_loop data iNdEx m)
      else (m, None))"
  by pat_completeness auto
termination
  by (relation "measure (\<lambda>(data, iNdEx, m). length data - iNdEx)")
     (auto dest!: ColumnType_field_bounds)

declare ColumnType_Unmarshal_loop.simps [simp del]

definition ColumnType_Unmarshal :: "ColumnType \<Rightarrow> byte list \<Rightarrow> ColumnType \<times> error option" where
  "ColumnType_Unmarshal m data = ColumnType_Unmarshal_loop data 0 m"

definition ColumnDescriptor_field ::
  "byte list \<Rightarrow> nat \<Rightarrow> ColumnDescriptor \<Rightarrow> (ColumnDescriptor \<times> error) + (ColumnDescriptor \<times> nat)" where
  "ColumnDescriptor_field data iNdEx m =
     (case decode_varint data iNdEx 0 (0 :: 64 word) of
        Inl (e, _) \<Rightarrow> Inl (m, e)
      | Inr (wire, iNdEx) \<Rightarrow>
          let fieldNum = (ucast (drop_bit 3 wire) :: 32 word);
              wireType = unat (wire AND 0x7)
          in if fieldNum = 1 then
               (if wireType \<noteq> 2 then Inl (m, ErrWrongWireType wireType ''Name'')
                else field_bytes data iNdEx m (\<lambda>s. m\<lparr>cd_Name := s\<rparr>))
             else if fieldNum = 2 then
               (if wireType \<noteq> 0 then Inl (m, ErrWrongWireType wireType ''ID'')
                else field_varint data iNdEx (\<lambda>v. m\<lparr>cd_ID := v\<rparr>))
             else if fieldNum = 3 then
               (if wireType \<noteq> 2 then Inl (m, ErrWrongWireType wireType ''Type'')
                else field_msg data iNdEx m (ColumnType_Unmarshal (cd_Type m))
                       (\<lambda>x. m\<lparr>cd_Type := x\<rparr>))
             else if fieldNum = 4 then
               (if wireType \<noteq> 0 then Inl (m, ErrWrongWireType wireType ''Nullable'')
                else field_bool data iNdEx m (\<lambda>b. m\<lparr>cd_Nullable := b\<rparr>))
             else field_unknown data iNdEx wire m
                    (\<lambda>bs. m\<lparr>cd_XXX_unrecognized := cd_XXX_unrecognized m @ bs\<rparr>))"

lemma ColumnDescriptor_field_bounds:
  "ColumnDescriptor_field data i m = Inr (m', j) \<Longrightarrow> i < j \<and> j \<le> length data"
  unfolding ColumnDescriptor_field_def Let_def
  by (auto split: sum.splits prod.splits if_splits
      dest!: field_varint_bounds local_varint_bounds field_bool_bounds field_bytes_bounds
             field_msg_bounds
      dest: field_unknown_bounds decode_varint_bounds)

function ColumnDescriptor_Unmarshal_loop ::
  "byte list \<Rightarrow> nat \<Rightarrow> ColumnDescriptor \<Rightarrow> ColumnDescriptor \<times> error option" where
  "ColumnDescriptor_Unmarshal_loop data iNdEx m =
     (if iNdEx < length data then
        (case ColumnDescriptor_field data iNdEx m of
           Inl (m, e) \<Rightarrow> (m, Some e)
         | Inr (m, iNdEx) \<Rightarrow> ColumnDescriptor_Unmarshal_loop data iNdEx m)
      else (m, None))"
  by pat_completeness auto
termination
  by (relation "measure (\<lambda>(data, iNdEx, m). length data - iNdEx)")
     (auto dest!: ColumnDescriptor_field_bounds)

declare ColumnDescriptor_Unmarshal_loop.simps [simp del]

definition ColumnDescriptor_Unmarshal :: "ColumnDescriptor \<Rightarrow> byte list \<Rightarrow> ColumnDescriptor \<times> error option" where
  "ColumnDescriptor_Unmarshal m data = ColumnDescriptor_Unmarshal_loop data 0 m"

definition IndexDescriptor_field ::
  "byte list \<Rightarrow> nat \<Rightarrow> IndexDescriptor \<Rightarrow> (IndexDescriptor \<times> error) + (IndexDescriptor \<times> nat)" where
  "IndexDescriptor_field data iNdEx m =
     (case decode_varint data iNdEx 0 (0 :: 64 word) of
        Inl (e, _) \<Rightarrow> Inl (m, e)
      | Inr (wire, iNdEx) \<Rightarrow>
          let fieldNum = (ucast (drop_bit 3 wire) :: 32 word);
              wireType = unat (wire AND 0x7)
          in if fieldNum = 1 then
               (if wireType \<noteq> 2 then Inl (m, ErrWrongWireType wireType ''Name'')
                else field_bytes data iNdEx m (\<lambda>s. m\<lparr>ix_Name := s\<rparr>))
             else if fieldNum = 2 then
               (if wireType \<noteq> 0 then Inl (m, ErrWrongWireType wireType ''ID'')
                else field_varint data iNdEx (\<lambda>v. m\<lparr>ix_ID := v\<rparr>))
             else if fieldNum = 3 then
               (if wireType \<noteq> 0 then Inl (m, ErrWrongWireType wireType ''Unique'')
                else field_bool data iNdEx m (\<lambda>b. m\<lparr>ix_Unique := b\<rparr>))
             else if fieldNum = 4 then
               (if wireType \<noteq> 2 then Inl (m, ErrWrongWireType wireType ''ColumnNames'')
                else field_bytes data iNdEx m (\<lambda>s. m\<lparr>ix_ColumnNames := ix_ColumnNames m @ [s]\<rparr>))
             else if fieldNum = 5 then
               (if wireType \<noteq> 0 then Inl (m, ErrWrongWireType wireType ''ColumnIDs'')
                else local_varint data iNdEx m (\<lambda>v. m\<lparr>ix_ColumnIDs := ix_ColumnIDs m @ [v]\<rparr>))
             else field_unknown data iNdEx wire m
                    (\<lambda>bs. m\<lparr>ix_XXX_unrecognized := ix_XXX_unrecognized m @ bs\<rparr>))"

lemma IndexDescriptor_field_bounds:
  "IndexDescriptor_field data i m = Inr (m', j) \<Longrightarrow> i < j \<and> j \<le> length data"
  unfolding IndexDescriptor_field_def Let_def
  by (auto split: sum.splits prod.splits if_splits
      dest!: field_varint_bounds local_varint_bounds field_bool_bounds field_bytes_bounds
             field_msg_bounds
      dest: field_unknown_bounds decode_varint_bounds)

function IndexDescriptor_Unmarshal_loop ::
  "byte list \<Rightarrow> nat \<Rightarrow> IndexDescriptor \<Rightarrow> IndexDescriptor \<times> error option" where
  "IndexDescriptor_Unmarshal_loop data iNdEx m =
     (if iNdEx < length data then
        (case IndexDescriptor_field data iNdEx m of
           Inl (m, e) \<Rightarrow> (m, Some e)
         | Inr (m, iNdEx) \<Rightarrow> IndexDescriptor_Unmarshal_loop data iNdEx m)
      else (m, None))"
  by pat_completeness auto
termination
  by (relation "measure (\<lambda>(data, iNdEx, m). length data - iNdEx)")
     (auto dest!: IndexDescriptor_field_bounds)

declare IndexDescriptor_Unmarshal_loop.simps [simp del]

definition IndexDescriptor_Unmarshal :: "IndexDescriptor \<Rightarrow> byte list \<Rightarrow> IndexDescriptor \<times> error option" where
  "IndexDescriptor_Unmarshal m data = IndexDescriptor_Unmarshal_loop data 0 m"

definition PrivilegeDescriptor_field ::
  "byte list \<Rightarrow> nat \<Rightarrow> PrivilegeDescriptor \<Rightarrow> (PrivilegeDescriptor \<times> error) + (PrivilegeDescriptor \<times> nat)" where
  "PrivilegeDescriptor_field data iNdEx m =
     (case decode_varint data iNdEx 0 (0 :: 64 word) of
        Inl (e, _) \<Rightarrow> Inl (m, e)
      | Inr (wire, iNdEx) \<Rightarrow>
          let fieldNum = (ucast (drop_bit 3 wire) :: 32 word);
              wireType = unat (wire AND 0x7)
          in if fieldNum = 1 then
               (if wireType \<noteq> 2 then Inl (m, ErrWrongWireType wireType ''Read'')
                else field_bytes data iNdEx m (\<lambda>s. m\<lparr>pd_Read := pd_Read m @ [s]\<rparr>))
             else if fieldNum = 2 then
               (if wireType \<noteq> 2 then Inl (m, ErrWrongWireType wireType ''Write'')
                else field_bytes data iNdEx m (\<lambda>s. m\<lparr>pd_Write := pd_Write m @ [s]\<rparr>))
             else field_unknown data iNdEx wire m
                    (\<lambda>bs. m\<lparr>pd_XXX_unrecognized := pd_XXX_unrecognized m @ bs\<rparr>))"

lemma PrivilegeDescriptor_field_bounds:
  "PrivilegeDescriptor_field data i m = Inr (m', j) \<Longrightarrow> i < j \<and> j \<le> length data"
  unfolding PrivilegeDescriptor_field_def Let_def
  by (auto split: sum.splits prod.splits if_splits
      dest!: field_varint_bounds local_varint_bounds field_bool_bounds field_bytes_bounds
             field_msg_bounds
      dest: field_unknown_bounds decode_varint_bounds)

function PrivilegeDescriptor_Unmarshal_loop ::
  "byte list \<Rightarrow> nat \<Rightarrow> PrivilegeDescriptor \<Rightarrow> PrivilegeDescriptor \<times> error option" where
  "PrivilegeDescriptor_Unmarshal_loop data iNdEx m =
     (if iNdEx < length data then
        (case PrivilegeDescriptor_field data iNdEx m of
           Inl (m, e) \<Rightarrow> (m, Some e)
         | Inr (m, iNdEx) \<Rightarrow> PrivilegeDescriptor_Unmarshal_loop data iNdEx m)
      else (m, None))"
  by pat_completeness auto
termination
  by (relation "measure (\<lambda>(data, iNdEx, m). length data - iNdEx)")
     (auto dest!: PrivilegeDescriptor_field_bounds)

declare PrivilegeDescriptor_Unmarshal_loop.simps [simp del]

definition PrivilegeDescriptor_Unmarshal :: "PrivilegeDescriptor \<Rightarrow> byte list \<Rightarrow> PrivilegeDescriptor \<times> error option" where
  "PrivilegeDescriptor_Unmarshal m data = PrivilegeDescriptor_Unmarshal_loop data 0 m"

definition TableDescriptor_field ::
  "byte list \<Rightarrow> nat \<Rightarrow> TableDescriptor \<Rightarrow> (TableDescriptor \<times> error) + (TableDescriptor \<times> nat)" where
  "TableDescriptor_field data iNdEx m =
     (case decode_varint data iNdEx 0 (0 :: 64 word) of
        Inl (e, _) \<Rightarrow> Inl (m, e)
      | Inr (wire, iNdEx) \<Rightarrow>
          let fieldNum = (ucast (drop_bit 3 wire) :: 32 word);
              wireType = unat (wire AND 0x7)
          in if fieldNum = 1 then
               (if wireType \<noteq> 2 then Inl (m, ErrWrongWireType wireType ''Name'')
                else field_bytes data iNdEx m (\<lambda>s. m\<lparr>td_Name := s\<rparr>))
             else if fieldNum = 2 then
               (if wireType \<noteq> 0 then Inl (m, ErrWrongWireType wireType ''ID'')
                else field_varint data iNdEx (\<lambda>v. m\<lparr>td_ID := v\<rparr>))
             else if fieldNum = 3 then
               (if wireType \<noteq> 2 then Inl (m, ErrWrongWireType wireType ''Columns'')
                else field_msg data iNdEx m (ColumnDescriptor_Unmarshal ColumnDescriptor_zero)
                       (\<lambda>x. m\<lparr>td_Columns := td_Columns m @ [x]\<rparr>))
             else if fieldNum = 4 then
               (if wireType \<noteq> 0 then Inl (m, ErrWrongWireType wireType ''NextColumnID'')
                else field_varint data iNdEx (\<lambda>v. m\<lparr>td_NextColumnID := v\<rparr>))
             else if fieldNum = 5 then
               (if wireType \<noteq> 2 then Inl (m, ErrWrongWireType wireType ''PrimaryIndex'')
                else field_msg data iNdEx m (IndexDescriptor_Unmarshal (td_PrimaryIndex m))
                       (\<lambda>x. m\<lparr>td_PrimaryIndex := x\<rparr>))
             else if fieldNum = 6 then
               (if wireType \<noteq> 2 then Inl (m, ErrWrongWireType wireType ''Indexes'')
                else field_msg data iNdEx m (IndexDescriptor_Unmarshal IndexDescriptor_zero)
                       (\<lambda>x. m\<lparr>td_Indexes := td_Indexes m @ [x]\<rparr>))
             else if fieldNum = 7 then
               (if wireType \<noteq> 0 then Inl (m, ErrWrongWireType wireType ''NextIndexID'')
                else field_varint data iNdEx (\<lambda>v. m\<lparr>td_NextIndexID := v\<rparr>))
             else if fieldNum = 8 then
               (if wireType \<noteq> 2 then Inl (m, ErrWrongWireType wireType ''PrivilegeDescriptor'')
                else field_msg data iNdEx m (PrivilegeDescriptor_Unmarshal (td_PrivilegeDescriptor m))
                       (\<lambda>x. m\<lparr>td_PrivilegeDescriptor := x\<rparr>))
             else field_unknown data iNdEx wire m
                    (\<lambda>bs. m\<lparr>td_XXX_unrecognized := td_XXX_unrecognized m @ bs\<rparr>))"

lemma TableDescriptor_field_bounds:
  "TableDescriptor_field data i m = Inr (m', j) \<Longrightarrow> i < j \<and> j \<le> length data"
  unfolding TableDescriptor_field_def Let_def
  by (auto split: sum.splits prod.splits if_splits
      dest!: field_varint_bounds local_varint_bounds field_bool_bounds field_bytes_bounds
             field_msg_bounds
      dest: field_unknown_bounds decode_varint_bounds)

function TableDescriptor_Unmarshal_loop ::
  "byte list \<Rightarrow> nat \<Rightarrow> TableDescriptor \<Rightarrow> TableDescriptor \<times> error option" where
  "TableDescriptor_Unmarshal_loop data iNdEx m =
     (if iNdEx < length data then
        (case TableDescriptor_field data iNdEx m of
           Inl (m, e) \<Rightarrow> (m, Some e)
         | Inr (m, iNdEx) \<Rightarrow> TableDescriptor_Unmarshal_loop data iNdEx m)
      else (m, None))"
  by pat_completeness auto
termination
  by (relation "measure (\<lambda>(data, iNdEx, m). length data - iNdEx)")
     (auto dest!: TableDescriptor_field_bounds)

declare TableDescriptor_Unmarshal_loop.simps [simp del]

definition TableDescriptor_Unmarshal :: "TableDescriptor \<Rightarrow> byte list \<Rightarrow> TableDescriptor \<times> error option" where
  "TableDescriptor_Unmarshal m data = TableDescriptor_Unmarshal_loop data 0 m"

definition DatabaseDescriptor_field ::
  "byte list \<Rightarrow> nat \<Rightarrow> DatabaseDescriptor \<Rightarrow> (DatabaseDescriptor \<times> error) + (DatabaseDescriptor \<times> nat)" where
  "DatabaseDescriptor_field data iNdEx m =
     (case decode_varint data iNdEx 0 (0 :: 64 word) of
        Inl (e, _) \<Rightarrow> Inl (m, e)
      | Inr (wire, iNdEx) \<Rightarrow>
          let fieldNum = (ucast (drop_bit 3 wire) :: 32 word);
              wireType = unat (wire AND 0x7)
          in if fieldNum = 1 then
               (if wireType \<noteq> 2 then Inl (m, ErrWrongWireType wireType ''Name'')
                else field_bytes data iNdEx m (\<lambda>s. m\<lparr>dd_Name := s\<rparr>))
             else if fieldNum = 2 then
               (if wireType \<noteq> 0 then Inl (m, ErrWrongWireType wireType ''ID'')
                else field_varint data iNdEx (\<lambda>v. m\<lparr>dd_ID := v\<rparr>))
             else if fieldNum = 3 then
               (if wireType \<noteq> 2 then Inl (m, ErrWrongWireType wireType ''PrivilegeDescriptor'')
                else field_msg data iNdEx m (PrivilegeDescriptor_Unmarshal (dd_PrivilegeDescriptor m))
                       (\<lambda>x. m\<lparr>dd_PrivilegeDescriptor := x\<rparr>))
             else field_unknown data iNdEx wire m
                    (\<lambda>bs. m\<lparr>dd_XXX_unrecognized := dd_XXX_unrecognized m @ bs\<rparr>))"

lemma DatabaseDescriptor_field_bounds:
  "DatabaseDescriptor_field data i m = Inr (m', j) \<Longrightarrow> i < j \<and> j \<le> length data"
  unfolding DatabaseDescriptor_field_def Let_def
  by (auto split: sum.splits prod.splits if_splits
      dest!: field_varint_bounds local_varint_bounds field_bool_bounds field_bytes_bounds
             field_msg_bounds
      dest: field_unknown_bounds decode_varint_bounds)

function DatabaseDescriptor_Unmarshal_loop ::
  "byte list \<Rightarrow> nat \<Rightarrow> DatabaseDescriptor \<Rightarrow> DatabaseDescriptor \<times> error option" where
  "DatabaseDescriptor_Unmarshal_loop data iNdEx m =
     (if iNdEx < length data then
        (case DatabaseDescriptor_field data iNdEx m of
           Inl (m, e) \<Rightarrow> (m, Some e)
         | Inr (m, iNdEx) \<Rightarrow> DatabaseDescriptor_Unmarshal_loop data iNdEx m)
      else (m, None))"
  by pat_completeness auto
termination
  by (relation "measure (\<lambda>(data, iNdEx, m). length data - iNdEx)")
     (auto dest!: DatabaseDescriptor_field_bounds)

declare DatabaseDescriptor_Unmarshal_loop.simps [simp del]

definition DatabaseDescriptor_Unmarshal :: "DatabaseDescriptor \<Rightarrow> byte list \<Rightarrow> DatabaseDescriptor \<times> error option" where
  "DatabaseDescriptor_Unmarshal m data = DatabaseDescriptor_Unmarshal_loop data 0 m"


section \<open>Size and Marshal\<close>

text \<open>
  \<^verbatim>\<open>MarshalTo(data []byte) (n int, err error)\<close> writes into the caller's buffer through the
  index \<^verbatim>\<open>i\<close>. A statement of it is a function from the buffer and the index to the error
  of a panic, or to the buffer and the index after it; \<open>seqw\<close> runs statements in order.
  \<^verbatim>\<open>data[i] = b; i++\<close> is \<open>put_byte\<close>: the assignment panics when \<^verbatim>\<open>i\<close> is not below
  \<^verbatim>\<open>len(data)\<close>.
\<close>

type_synonym wstate = "byte list \<times> nat"

fun seqw :: "(wstate \<Rightarrow> error + wstate) list \<Rightarrow> wstate \<Rightarrow> error + wstate" where
  "seqw [] s = Inr s"
| "seqw (w # ws) s = (case w s of Inl e \<Rightarrow> Inl e | Inr s' \<Rightarrow> seqw ws s')"

definition put_byte :: "byte \<Rightarrow> wstate \<Rightarrow> error + wstate" where
  "put_byte b = (\<lambda>(data, i). if i < length data then Inr (data[i := b], i + 1) else Inl Panic)"

text \<open>
  \<^verbatim>\<open>func encodeVarintStructured(data []byte, offset int, v uint64) int {
       for v >= 1<<7 { data[offset] = uint8(v&0x7f | 0x80); v >>= 7; offset++ }
       data[offset] = uint8(v)
       return offset + 1 }\<close>
\<close>

function encodeVarintStructured :: "byte list \<Rightarrow> nat \<Rightarrow> 64 word \<Rightarrow> error + wstate" where
  "encodeVarintStructured data offset v =
     (if 128 \<le> v then
        (if offset < length data
         then encodeVarintStructured (data[offset := ucast (v AND 0x7f OR 0x80)]) (offset + 1)
                (drop_bit 7 v)
         else Inl Panic)
      else if offset < length data then Inr (data[offset := ucast v], offset + 1)
      else Inl Panic)"
  by pat_completeness auto
termination
  by (relation "measure (\<lambda>(data, offset, v). unat v)") (auto simp: unat_drop_bit7_less ge128_iff)

declare encodeVarintStructured.simps [simp del]

text \<open>
  \<^verbatim>\<open>i = encodeVarintStructured(data, i, v)\<close> as a statement. The loops over repeated strings
  write the length with the same loop inline, on the \<^verbatim>\<open>int\<close> \<^verbatim>\<open>l = len(s)\<close>, which is not
  negative; they are this statement at \<^verbatim>\<open>uint64(l)\<close>.
\<close>

definition put_varint :: "64 word \<Rightarrow> wstate \<Rightarrow> error + wstate" where
  "put_varint v = (\<lambda>(data, i). encodeVarintStructured data i v)"

text \<open>
  \<^verbatim>\<open>i += copy(data[i:], src)\<close>: the slice expression panics when \<^verbatim>\<open>i > len(data)\<close>, and
  \<^verbatim>\<open>copy\<close> copies as many bytes as both slices hold.
\<close>

definition copy_bytes :: "byte list \<Rightarrow> wstate \<Rightarrow> error + wstate" where
  "copy_bytes src = (\<lambda>(data, i).
     if i > length data then Inl Panic
     else let n = min (length data - i) (length src)
          in Inr (take i data @ take n src @ drop (i + n) data, i + n))"

text \<open>
  \<^verbatim>\<open>n, err := x.MarshalTo(data[i:]); if err != nil { return 0, err }; i += n\<close>: the nested
  call writes into the rest of the same buffer.
\<close>

definition put_nested :: "(byte list \<Rightarrow> error + wstate) \<Rightarrow> wstate \<Rightarrow> error + wstate" where
  "put_nested marshalTo = (\<lambda>(data, i).
     if i > length data then Inl Panic
     else case marshalTo (drop i data) of
         Inl e \<Rightarrow> Inl e
       | Inr (sub, n) \<Rightarrow> Inr (take i data @ sub, i + n))"

text \<open>\<^verbatim>\<open>for _, x := range xs { ... }\<close>: the statements of the body for each element in order.\<close>

definition for_range :: "'a list \<Rightarrow> ('a \<Rightarrow> (wstate \<Rightarrow> error + wstate) list) \<Rightarrow> wstate \<Rightarrow> error + wstate" where
  "for_range xs body = seqw (concat (map body xs))"

text \<open>A boolean is written as \<^verbatim>\<open>if m.F { data[i] = 1 } else { data[i] = 0 }; i++\<close>.\<close>

definition put_bool :: "bool \<Rightarrow> wstate \<Rightarrow> error + wstate" where
  "put_bool b = put_byte (if b then 1 else 0)"

subsection \<open>ColumnType\<close>

definition ColumnType_Size :: "ColumnType \<Rightarrow> nat" where
  "ColumnType_Size m =
     (1 + sovStructured (scast (ct_Kind m)))
     + (1 + sovStructured (scast (ct_Width m)))
     + (1 + sovStructured (scast (ct_Precision m)))
     + length (ct_XXX_unrecognized m)"

definition ColumnType_MarshalTo :: "ColumnType \<Rightarrow> byte list \<Rightarrow> error + wstate" where
  "ColumnType_MarshalTo m data =
     seqw [put_byte 0x8, put_varint (scast (ct_Kind m)),
           put_byte 0x10, put_varint (scast (ct_Width m)),
           put_byte 0x18, put_varint (scast (ct_Precision m)),
           copy_bytes (ct_XXX_unrecognized m)] (data, 0)"

text \<open>
  \<^verbatim>\<open>func (m *T) Marshal() (data []byte, err error) {
       size := m.Size(); data = make([]byte, size)
       n, err := m.MarshalTo(data)
       if err != nil { return nil, err }
       return data[:n], nil }\<close>
\<close>

definition marshal_with :: "nat \<Rightarrow> (byte list \<Rightarrow> error + wstate) \<Rightarrow> error + byte list" where
  "marshal_with sz marshalTo =
     (case marshalTo (replicate sz 0) of
        Inl e \<Rightarrow> Inl e
      | Inr (data, n) \<Rightarrow> if n \<le> length data then Inr (take n data) else Inl Panic)"

definition ColumnType_Marshal :: "ColumnType \<Rightarrow> error + byte list" where
  "ColumnType_Marshal m = marshal_with (ColumnType_Size m) (ColumnType_MarshalTo m)"

subsection \<open>ColumnDescriptor\<close>

definition ColumnDescriptor_Size :: "ColumnDescriptor \<Rightarrow> nat" where
  "ColumnDescriptor_Size m =
     (let l = length (cd_Name m) in 1 + l + sovStructured (of_nat l))
     + (1 + sovStructured (ucast (cd_ID m)))
     + (let l = ColumnType_Size (cd_Type m) in 1 + l + sovStructured (of_nat l))
     + 2
     + length (cd_XXX_unrecognized m)"

definition ColumnDescriptor_MarshalTo :: "ColumnDescriptor \<Rightarrow> byte list \<Rightarrow> error + wstate" where
  "ColumnDescriptor_MarshalTo m data =
     seqw [put_byte 0xa, put_varint (of_nat (length (cd_Name m))), copy_bytes (cd_Name m),
           put_byte 0x10, put_varint (ucast (cd_ID m)),
           put_byte 0x1a, put_varint (of_nat (ColumnType_Size (cd_Type m))),
           put_nested (ColumnType_MarshalTo (cd_Type m)),
           put_byte 0x20, put_bool (cd_Nullable m),
           copy_bytes (cd_XXX_unrecognized m)] (data, 0)"

definition ColumnDescriptor_Marshal :: "ColumnDescriptor \<Rightarrow> error + byte list" where
  "ColumnDescriptor_Marshal m =
     marshal_with (ColumnDescriptor_Size m) (ColumnDescriptor_MarshalTo m)"

subsection \<open>IndexDescriptor\<close>

definition IndexDescriptor_Size :: "IndexDescriptor \<Rightarrow> nat" where
  "IndexDescriptor_Size m =
     (let l = length (ix_Name m) in 1 + l + sovStructured (of_nat l))
     + (1 + sovStructured (ucast (ix_ID m)))
     + 2
     + sum_list (map (\<lambda>s. let l = length s in 1 + l + sovStructured (of_nat l)) (ix_ColumnNames m))
     + sum_list (map (\<lambda>e. 1 + sovStructured (ucast e)) (ix_ColumnIDs m))
     + length (ix_XXX_unrecognized m)"

definition IndexDescriptor_MarshalTo :: "IndexDescriptor \<Rightarrow> byte list \<Rightarrow> error + wstate" where
  "IndexDescriptor_MarshalTo m data =
     seqw [put_byte 0xa, put_varint (of_nat (length (ix_Name m))), copy_bytes (ix_Name m),
           put_byte 0x10, put_varint (ucast (ix_ID m)),
           put_byte 0x18, put_bool (ix_Unique m),
           for_range (ix_ColumnNames m)
             (\<lambda>s. [put_byte 0x22, put_varint (of_nat (length s)), copy_bytes s]),
           for_range (ix_ColumnIDs m) (\<lambda>num. [put_byte 0x28, put_varint (ucast num)]),
           copy_bytes (ix_XXX_unrecognized m)] (data, 0)"

definition IndexDescriptor_Marshal :: "IndexDescriptor \<Rightarrow> error + byte list" where
  "IndexDescriptor_Marshal m =
     marshal_with (IndexDescriptor_Size m) (IndexDescriptor_MarshalTo m)"

subsection \<open>PrivilegeDescriptor\<close>

definition PrivilegeDescriptor_Size :: "PrivilegeDescriptor \<Rightarrow> nat" where
  "PrivilegeDescriptor_Size m =
     sum_list (map (\<lambda>s. let l = length s in 1 + l + sovStructured (of_nat l)) (pd_Read m))
     + sum_list (map (\<lambda>s. let l = length s in 1 + l + sovStructured (of_nat l)) (pd_Write m))
     + length (pd_XXX_unrecognized m)"

definition PrivilegeDescriptor_MarshalTo :: "PrivilegeDescriptor \<Rightarrow> byte list \<Rightarrow> error + wstate" where
  "PrivilegeDescriptor_MarshalTo m data =
     seqw [for_range (pd_Read m)
             (\<lambda>s. [put_byte 0xa, put_varint (of_nat (length s)), copy_bytes s]),
           for_range (pd_Write m)
             (\<lambda>s. [put_byte 0x12, put_varint (of_nat (length s)), copy_bytes s]),
           copy_bytes (pd_XXX_unrecognized m)] (data, 0)"

definition PrivilegeDescriptor_Marshal :: "PrivilegeDescriptor \<Rightarrow> error + byte list" where
  "PrivilegeDescriptor_Marshal m =
     marshal_with (PrivilegeDescriptor_Size m) (PrivilegeDescriptor_MarshalTo m)"

subsection \<open>TableDescriptor\<close>

definition TableDescriptor_Size :: "TableDescriptor \<Rightarrow> nat" where
  "TableDescriptor_Size m =
     (let l = length (td_Name m) in 1 + l + sovStructured (of_nat l))
     + (1 + sovStructured (ucast (td_ID m)))
     + sum_list (map (\<lambda>e. let l = ColumnDescriptor_Size e in 1 + l + sovStructured (of_nat l))
         (td_Columns m))
     + (1 + sovStructured (ucast (td_NextColumnID m)))
     + (let l = IndexDescriptor_Size (td_PrimaryIndex m) in 1 + l + sovStructured (of_nat l))
     + sum_list (map (\<lambda>e. let l = IndexDescriptor_Size e in 1 + l + sovStructured (of_nat l))
         (td_Indexes m))
     + (1 + sovStructured (ucast (td_NextIndexID m)))
     + (let l = PrivilegeDescriptor_Size (td_PrivilegeDescriptor m)
        in 1 + l + sovStructured (of_nat l))
     + length (td_XXX_unrecognized m)"

definition TableDescriptor_MarshalTo :: "TableDescriptor \<Rightarrow> byte list \<Rightarrow> error + wstate" where
  "TableDescriptor_MarshalTo m data =
     seqw [put_byte 0xa, put_varint (of_nat (length (td_Name m))), copy_bytes (td_Name m),
           put_byte 0x10, put_varint (ucast (td_ID m)),
           for_range (td_Columns m)
             (\<lambda>msg. [put_byte 0x1a, put_varint (of_nat (ColumnDescriptor_Size msg)),
                      put_nested (ColumnDescriptor_MarshalTo msg)]),
           put_byte 0x20, put_varint (ucast (td_NextColumnID m)),
           put_byte 0x2a, put_varint (of_nat (IndexDescriptor_Size (td_PrimaryIndex m))),
           put_nested (IndexDescriptor_MarshalTo (td_PrimaryIndex m)),
           for_range (td_Indexes m)
             (\<lambda>msg. [put_byte 0x32, put_varint (of_nat (IndexDescriptor_Size msg)),
                      put_nested (IndexDescriptor_MarshalTo msg)]),
           put_byte 0x38, put_varint (ucast (td_NextIndexID m)),
           put_byte 0x42,
           put_varint (of_nat (PrivilegeDescriptor_Size (td_PrivilegeDescriptor m))),
           put_nested (PrivilegeDescriptor_MarshalTo (td_PrivilegeDescriptor m)),
           copy_bytes (td_XXX_unrecognized m)] (data, 0)"

definition TableDescriptor_Marshal :: "TableDescriptor \<Rightarrow> error + byte list" where
  "TableDescriptor_Marshal m =
     marshal_with (TableDescriptor_Size m) (TableDescriptor_MarshalTo m)"

subsection \<open>DatabaseDescriptor\<close>

definition DatabaseDescriptor_Size :: "DatabaseDescriptor \<Rightarrow> nat" where
  "DatabaseDescriptor_Size m =
     (let l = length (dd_Name m) in 1 + l + sovStructured (of_nat l))
     + (1 + sovStructured (ucast (dd_ID m)))
     + (let l = PrivilegeDescriptor_Size (dd_PrivilegeDescriptor m)
        in 1 + l + sovStructured (of_nat l))
     + length (dd_XXX_unrecognized m)"

definition DatabaseDescriptor_MarshalTo :: "DatabaseDescriptor \<Rightarrow> byte list \<Rightarrow> error + wstate" where
  "DatabaseDescriptor_MarshalTo m data =
     seqw [put_byte 0xa, put_varint (of_nat (length (dd_Name m))), copy_bytes (dd_Name m),
           put_byte 0x10, put_varint (ucast (dd_ID m)),
           put_byte 0x1a,
           put_varint (of_nat (PrivilegeDescriptor_Size (dd_PrivilegeDescriptor m))),
           put_nested (PrivilegeDescriptor_MarshalTo (dd_PrivilegeDescriptor m)),
           copy_bytes (dd_XXX_unrecognized m)] (data, 0)"

definition DatabaseDescriptor_Marshal :: "DatabaseDescriptor \<Rightarrow> error + byte list" where
  "DatabaseDescriptor_Marshal m =
     marshal_with (DatabaseDescriptor_Size m) (DatabaseDescriptor_MarshalTo m)"


section \<open>The bytes that Marshal writes\<close>

text \<open>
  The byte string of a varint, and of each message as the list of its top-level fields
  (tag and payload) followed by the unrecognized bytes. These are the values that the
  buffer-writing code above is shown to produce.
\<close>

function enc_varint :: "64 word \<Rightarrow> byte list" where
  "enc_varint v =
     (if 128 \<le> v then ucast (v AND 0x7f OR 0x80) # enc_varint (drop_bit 7 v) else [ucast v])"
  by pat_completeness auto
termination
  by (relation "measure unat") (auto simp: unat_drop_bit7_less ge128_iff)

declare enc_varint.simps [simp del]

definition enc_bytes :: "byte \<Rightarrow> byte list \<Rightarrow> byte list" where
  "enc_bytes tag s = tag # enc_varint (of_nat (length s)) @ s"

definition enc_bool :: "byte \<Rightarrow> bool \<Rightarrow> byte list" where
  "enc_bool tag b = [tag, if b then 1 else 0]"

definition fields_ColumnType :: "ColumnType \<Rightarrow> byte list list" where
  "fields_ColumnType m =
     [0x8 # enc_varint (scast (ct_Kind m)),
      0x10 # enc_varint (scast (ct_Width m)),
      0x18 # enc_varint (scast (ct_Precision m))]"

definition enc_ColumnType :: "ColumnType \<Rightarrow> byte list" where
  "enc_ColumnType m = concat (fields_ColumnType m) @ ct_XXX_unrecognized m"

definition fields_ColumnDescriptor :: "ColumnDescriptor \<Rightarrow> byte list list" where
  "fields_ColumnDescriptor m =
     [enc_bytes 0xa (cd_Name m),
      0x10 # enc_varint (ucast (cd_ID m)),
      enc_bytes 0x1a (enc_ColumnType (cd_Type m)),
      enc_bool 0x20 (cd_Nullable m)]"

definition enc_ColumnDescriptor :: "ColumnDescriptor \<Rightarrow> byte list" where
  "enc_ColumnDescriptor m = concat (fields_ColumnDescriptor m) @ cd_XXX_unrecognized m"

definition fields_IndexDescriptor :: "IndexDescriptor \<Rightarrow> byte list list" where
  "fields_IndexDescriptor m =
     [enc_bytes 0xa (ix_Name m),
      0x10 # enc_varint (ucast (ix_ID m)),
      enc_bool 0x18 (ix_Unique m)]
     @ map (enc_bytes 0x22) (ix_ColumnNames m)
     @ map (\<lambda>num. 0x28 # enc_varint (ucast num)) (ix_ColumnIDs m)"

definition enc_IndexDescriptor :: "IndexDescriptor \<Rightarrow> byte list" where
  "enc_IndexDescriptor m = concat (fields_IndexDescriptor m) @ ix_XXX_unrecognized m"

definition fields_PrivilegeDescriptor :: "PrivilegeDescriptor \<Rightarrow> byte list list" where
  "fields_PrivilegeDescriptor m =
     map (enc_bytes 0xa) (pd_Read m) @ map (enc_bytes 0x12) (pd_Write m)"

definition enc_PrivilegeDescriptor :: "PrivilegeDescriptor \<Rightarrow> byte list" where
  "enc_PrivilegeDescriptor m = concat (fields_PrivilegeDescriptor m) @ pd_XXX_unrecognized m"

definition fields_TableDescriptor :: "TableDescriptor \<Rightarrow> byte list list" where
  "fields_TableDescriptor m =
     [enc_bytes 0xa (td_Name m),
      0x10 # enc_varint (ucast (td_ID m))]
     @ map (\<lambda>msg. enc_bytes 0x1a (enc_ColumnDescriptor msg)) (td_Columns m)
     @ [0x20 # enc_varint (ucast (td_NextColumnID m)),
        enc_bytes 0x2a (enc_IndexDescriptor (td_PrimaryIndex m))]
     @ map (\<lambda>msg. enc_bytes 0x32 (enc_IndexDescriptor msg)) (td_Indexes m)
     @ [0x38 # enc_varint (ucast (td_NextIndexID m)),
        enc_bytes 0x42 (enc_PrivilegeDescriptor (td_PrivilegeDescriptor m))]"

definition enc_TableDescriptor :: "TableDescriptor \<Rightarrow> byte list" where
  "enc_TableDescriptor m = concat (fields_TableDescriptor m) @ td_XXX_unrecognized m"

definition fields_DatabaseDescriptor :: "DatabaseDescriptor \<Rightarrow> byte list list" where
  "fields_DatabaseDescriptor m =
     [enc_bytes 0xa (dd_Name m),
      0x10 # enc_varint (ucast (dd_ID m)),
      enc_bytes 0x1a (enc_PrivilegeDescriptor (dd_PrivilegeDescriptor m))]"

definition enc_DatabaseDescriptor :: "DatabaseDescriptor \<Rightarrow> byte list" where
  "enc_DatabaseDescriptor m = concat (fields_DatabaseDescriptor m) @ dd_XXX_unrecognized m"

text \<open>\<open>writes w bs\<close>: in a buffer with room for them, the statement \<open>w\<close> writes the bytes \<open>bs\<close>
  at the index, leaves the rest of the buffer alone and moves the index behind them.\<close>

definition writes :: "(wstate \<Rightarrow> error + wstate) \<Rightarrow> byte list \<Rightarrow> bool" where
  "writes w bs \<longleftrightarrow>
     (\<forall>data i. i + length bs \<le> length data \<longrightarrow>
        w (data, i) = Inr (take i data @ bs @ drop (i + length bs) data, i + length bs))"

subsection \<open>Size is the length of the encoding\<close>

lemma length_enc_varint: "length (enc_varint v) = sovStructured v"
proof (induction v rule: enc_varint.induct)
  case (1 v)
  show ?case
  proof (cases "128 \<le> v")
    case True
    then have "drop_bit 7 v \<noteq> 0" by (simp add: ge128_iff)
    with True 1 show ?thesis
      by (subst enc_varint.simps, subst sovStructured.simps) simp
  next
    case False
    then have "drop_bit 7 v = 0" by (simp add: ge128_iff)
    with False show ?thesis
      by (subst enc_varint.simps, subst sovStructured.simps) simp
  qed
qed

lemma length_enc_bytes: "length (enc_bytes tag s) = 1 + length s + sovStructured (of_nat (length s))"
  by (simp add: enc_bytes_def length_enc_varint)

lemma length_concat_map: "length (concat (map f xs)) = sum_list (map (\<lambda>x. length (f x)) xs)"
  by (induction xs) auto

lemma length_enc_ColumnType: "length (enc_ColumnType m) = ColumnType_Size m"
  by (simp add: enc_ColumnType_def fields_ColumnType_def ColumnType_Size_def length_enc_varint)

lemma length_enc_ColumnDescriptor: "length (enc_ColumnDescriptor m) = ColumnDescriptor_Size m"
  by (simp add: enc_ColumnDescriptor_def fields_ColumnDescriptor_def ColumnDescriptor_Size_def
      length_enc_varint length_enc_bytes length_enc_ColumnType enc_bool_def Let_def)

lemma length_enc_IndexDescriptor: "length (enc_IndexDescriptor m) = IndexDescriptor_Size m"
  by (simp add: enc_IndexDescriptor_def fields_IndexDescriptor_def IndexDescriptor_Size_def
      length_enc_varint length_enc_bytes enc_bool_def Let_def length_concat_map)

lemma length_enc_PrivilegeDescriptor:
  "length (enc_PrivilegeDescriptor m) = PrivilegeDescriptor_Size m"
  by (simp add: enc_PrivilegeDescriptor_def fields_PrivilegeDescriptor_def
      PrivilegeDescriptor_Size_def length_enc_bytes Let_def length_concat_map)

lemma length_enc_TableDescriptor: "length (enc_TableDescriptor m) = TableDescriptor_Size m"
  by (simp add: enc_TableDescriptor_def fields_TableDescriptor_def TableDescriptor_Size_def
      length_enc_varint length_enc_bytes length_enc_ColumnDescriptor
      length_enc_IndexDescriptor length_enc_PrivilegeDescriptor Let_def length_concat_map)

lemma length_enc_DatabaseDescriptor:
  "length (enc_DatabaseDescriptor m) = DatabaseDescriptor_Size m"
  by (simp add: enc_DatabaseDescriptor_def fields_DatabaseDescriptor_def
      DatabaseDescriptor_Size_def length_enc_varint length_enc_bytes
      length_enc_PrivilegeDescriptor Let_def)

subsection \<open>The statements write the encoding\<close>

lemma writes_put_byte: "writes (put_byte b) [b]"
  by (auto simp: writes_def put_byte_def upd_conv_take_nth_drop)

lemma writes_put_bool: "writes (put_bool b) [if b then 1 else 0]"
  unfolding put_bool_def by (rule writes_put_byte)

lemma encodeVarintStructured_enc:
  "offset + length (enc_varint v) \<le> length data \<Longrightarrow>
   encodeVarintStructured data offset v =
     Inr (take offset data @ enc_varint v @ drop (offset + length (enc_varint v)) data,
          offset + length (enc_varint v))"
proof (induction data offset v rule: encodeVarintStructured.induct)
  case (1 data offset v)
  show ?case
  proof (cases "128 \<le> v")
    case True
    let ?b = "ucast (v AND 0x7f OR 0x80) :: byte"
    from True have e: "enc_varint v = ?b # enc_varint (drop_bit 7 v)"
      by (subst enc_varint.simps) simp
    with "1.prems" have ol: "offset < length data"
      and r: "(offset + 1) + length (enc_varint (drop_bit 7 v)) \<le> length (data[offset := ?b])"
      by auto
    from "1.IH" [OF True ol r] True ol show ?thesis
      by (subst encodeVarintStructured.simps)
         (simp add: e take_Suc_conv_app_nth)
  next
    case False
    then have e: "enc_varint v = [ucast v]"
      by (subst enc_varint.simps) simp
    with "1.prems" have ol: "offset < length data" by simp
    with False show ?thesis
      by (subst encodeVarintStructured.simps) (simp add: e upd_conv_take_nth_drop)
  qed
qed

lemma writes_put_varint: "writes (put_varint v) (enc_varint v)"
  by (simp add: writes_def put_varint_def encodeVarintStructured_enc)

lemma writes_copy_bytes: "writes (copy_bytes s) s"
  by (auto simp: writes_def copy_bytes_def Let_def min_def)

lemma writes_seqw_Nil: "writes (seqw []) []"
  by (simp add: writes_def)

lemma writes_seqw_Cons:
  assumes "writes w bs" and "writes (seqw ws) bs'"
  shows "writes (seqw (w # ws)) (bs @ bs')"
  unfolding writes_def
proof (intro allI impI)
  fix data :: "byte list" and i
  assume l: "i + length (bs @ bs') \<le> length data"
  let ?d = "take i data @ bs @ drop (i + length bs) data"
  from l assms(1) have 1: "w (data, i) = Inr (?d, i + length bs)"
    by (simp add: writes_def)
  from l have "(i + length bs) + length bs' \<le> length ?d" by simp
  with assms(2) have 2: "seqw ws (?d, i + length bs)
      = Inr (take (i + length bs) ?d @ bs' @ drop (i + length bs + length bs') ?d,
             i + length bs + length bs')"
    unfolding writes_def by blast
  from l have 3: "take (i + length bs) ?d = take i data @ bs"
    by simp
  from l have 4: "drop (i + length bs + length bs') ?d = drop (i + length (bs @ bs')) data"
    by (simp add: add.commute add.left_commute)
  show "seqw (w # ws) (data, i)
      = Inr (take i data @ (bs @ bs') @ drop (i + length (bs @ bs')) data, i + length (bs @ bs'))"
    using 1 2 3 4 by (simp add: add.assoc)
qed

lemma seqw_append:
  "seqw (ws @ ws') s = (case seqw ws s of Inl e \<Rightarrow> Inl e | Inr s' \<Rightarrow> seqw ws' s')"
  by (induction ws arbitrary: s) (auto split: sum.splits)

lemma writes_seqw_append:
  assumes "writes (seqw ws) bs" and "writes (seqw ws') bs'"
  shows "writes (seqw (ws @ ws')) (bs @ bs')"
  unfolding writes_def
proof (intro allI impI)
  fix data :: "byte list" and i
  assume l: "i + length (bs @ bs') \<le> length data"
  let ?d = "take i data @ bs @ drop (i + length bs) data"
  from l assms(1) have 1: "seqw ws (data, i) = Inr (?d, i + length bs)"
    by (simp add: writes_def)
  from l have "(i + length bs) + length bs' \<le> length ?d" by simp
  with assms(2) have 2: "seqw ws' (?d, i + length bs)
      = Inr (take (i + length bs) ?d @ bs' @ drop (i + length bs + length bs') ?d,
             i + length bs + length bs')"
    unfolding writes_def by blast
  from l have 3: "take (i + length bs) ?d = take i data @ bs"
    by simp
  from l have 4: "drop (i + length bs + length bs') ?d = drop (i + length (bs @ bs')) data"
    by (simp add: add.commute add.left_commute)
  show "seqw (ws @ ws') (data, i)
      = Inr (take i data @ (bs @ bs') @ drop (i + length (bs @ bs')) data, i + length (bs @ bs'))"
    using 1 2 3 4 by (simp add: seqw_append add.assoc)
qed

lemma writes_for_range:
  assumes "\<And>x. x \<in> set xs \<Longrightarrow> writes (seqw (body x)) (f x)"
  shows "writes (for_range xs body) (concat (map f xs))"
  using assms unfolding for_range_def
proof (induction xs)
  case Nil
  then show ?case by (simp add: writes_def)
next
  case (Cons x xs)
  have "writes (seqw (body x @ concat (map body xs))) (f x @ concat (map f xs))"
    by (rule writes_seqw_append) (simp_all add: Cons)
  then show ?case by simp
qed

lemma writes_put_nested:
  assumes "\<And>buf. length bs \<le> length buf \<Longrightarrow>
             marshalTo buf = Inr (bs @ drop (length bs) buf, length bs)"
  shows "writes (put_nested marshalTo) bs"
  unfolding writes_def
proof (intro allI impI)
  fix data :: "byte list" and i
  assume l: "i + length bs \<le> length data"
  then have "length bs \<le> length (drop i data)" by simp
  from assms [OF this] l
  show "put_nested marshalTo (data, i)
      = Inr (take i data @ bs @ drop (i + length bs) data, i + length bs)"
    by (simp add: put_nested_def add.commute)
qed

lemma writes_marshalTo:
  assumes "writes w bs" and "length bs \<le> length buf"
  shows "w (buf, 0) = Inr (bs @ drop (length bs) buf, length bs)"
  using assms by (simp add: writes_def)

lemma marshal_with_enc:
  assumes "\<And>buf. length bs \<le> length buf \<Longrightarrow>
             marshalTo buf = Inr (bs @ drop (length bs) buf, length bs)"
    and "length bs = sz"
  shows "marshal_with sz marshalTo = Inr bs"
  using assms(1) [of "replicate sz 0"] assms(2) by (simp add: marshal_with_def)

lemma writes_byte_Cons:
  "writes (seqw ws) bs \<Longrightarrow> writes (seqw (put_byte b # ws)) (b # bs)"
  using writes_seqw_Cons [OF writes_put_byte, of ws bs b] by simp

lemma writes_bool_Cons:
  "writes (seqw ws) bs \<Longrightarrow> writes (seqw (put_bool b # ws)) ((if b then 1 else 0) # bs)"
  using writes_seqw_Cons [OF writes_put_bool, of ws bs b] by simp

lemma writes_last: "writes w bs \<Longrightarrow> writes (seqw [w]) bs"
  using writes_seqw_Cons [OF _ writes_seqw_Nil, of w bs] by simp

lemma writes_enc_bytes:
  "writes (seqw [put_byte tag, put_varint (of_nat (length s)), copy_bytes s]) (enc_bytes tag s)"
  unfolding enc_bytes_def
  by (intro writes_byte_Cons writes_seqw_Cons writes_last writes_put_varint writes_copy_bytes)

lemmas writes_intros = writes_byte_Cons writes_bool_Cons writes_seqw_Cons writes_last
  writes_put_varint writes_copy_bytes writes_for_range writes_put_nested writes_enc_bytes

lemmas enc_shape = concat.simps append.simps append_assoc map_append concat_append list.map
  enc_bytes_def enc_bool_def

lemma ColumnType_MarshalTo_enc:
  assumes "length (enc_ColumnType m) \<le> length buf"
  shows "ColumnType_MarshalTo m buf =
     Inr (enc_ColumnType m @ drop (length (enc_ColumnType m)) buf, length (enc_ColumnType m))"
  unfolding ColumnType_MarshalTo_def
  apply (rule writes_marshalTo [OF _ assms])
  apply (simp only: enc_ColumnType_def fields_ColumnType_def enc_shape)
  apply (intro writes_intros)
  done

lemma ColumnDescriptor_MarshalTo_enc:
  assumes "length (enc_ColumnDescriptor m) \<le> length buf"
  shows "ColumnDescriptor_MarshalTo m buf =
     Inr (enc_ColumnDescriptor m @ drop (length (enc_ColumnDescriptor m)) buf,
          length (enc_ColumnDescriptor m))"
  unfolding ColumnDescriptor_MarshalTo_def
  apply (rule writes_marshalTo [OF _ assms])
  apply (simp only: enc_ColumnDescriptor_def fields_ColumnDescriptor_def enc_shape
      length_enc_ColumnType)
  apply (intro writes_intros ColumnType_MarshalTo_enc; assumption?)
  done

lemma IndexDescriptor_MarshalTo_enc:
  assumes "length (enc_IndexDescriptor m) \<le> length buf"
  shows "IndexDescriptor_MarshalTo m buf =
     Inr (enc_IndexDescriptor m @ drop (length (enc_IndexDescriptor m)) buf,
          length (enc_IndexDescriptor m))"
  unfolding IndexDescriptor_MarshalTo_def
  apply (rule writes_marshalTo [OF _ assms])
  apply (simp only: enc_IndexDescriptor_def fields_IndexDescriptor_def enc_shape)
  apply (intro writes_intros; assumption?)
  done

lemma PrivilegeDescriptor_MarshalTo_enc:
  assumes "length (enc_PrivilegeDescriptor m) \<le> length buf"
  shows "PrivilegeDescriptor_MarshalTo m buf =
     Inr (enc_PrivilegeDescriptor m @ drop (length (enc_PrivilegeDescriptor m)) buf,
          length (enc_PrivilegeDescriptor m))"
  unfolding PrivilegeDescriptor_MarshalTo_def
  apply (rule writes_marshalTo [OF _ assms])
  apply (simp only: enc_PrivilegeDescriptor_def fields_PrivilegeDescriptor_def enc_shape)
  apply (intro writes_intros; assumption?)
  done

lemma TableDescriptor_MarshalTo_enc:
  assumes "length (enc_TableDescriptor m) \<le> length buf"
  shows "TableDescriptor_MarshalTo m buf =
     Inr (enc_TableDescriptor m @ drop (length (enc_TableDescriptor m)) buf,
          length (enc_TableDescriptor m))"
  unfolding TableDescriptor_MarshalTo_def
  apply (rule writes_marshalTo [OF _ assms])
  apply (simp only: enc_TableDescriptor_def fields_TableDescriptor_def enc_shape
      length_enc_ColumnDescriptor length_enc_IndexDescriptor length_enc_PrivilegeDescriptor)
  apply (intro writes_intros ColumnDescriptor_MarshalTo_enc IndexDescriptor_MarshalTo_enc
      PrivilegeDescriptor_MarshalTo_enc; assumption?)
  done

lemma DatabaseDescriptor_MarshalTo_enc:
  assumes "length (enc_DatabaseDescriptor m) \<le> length buf"
  shows "DatabaseDescriptor_MarshalTo m buf =
     Inr (enc_DatabaseDescriptor m @ drop (length (enc_DatabaseDescriptor m)) buf,
          length (enc_DatabaseDescriptor m))"
  unfolding DatabaseDescriptor_MarshalTo_def
  apply (rule writes_marshalTo [OF _ assms])
  apply (simp only: enc_DatabaseDescriptor_def fields_DatabaseDescriptor_def enc_shape
      length_enc_PrivilegeDescriptor)
  apply (intro writes_intros PrivilegeDescriptor_MarshalTo_enc; assumption?)
  done

lemma ColumnType_Marshal_enc: "ColumnType_Marshal m = Inr (enc_ColumnType m)"
  unfolding ColumnType_Marshal_def
  by (rule marshal_with_enc [OF ColumnType_MarshalTo_enc length_enc_ColumnType])

lemma ColumnType_MarshalTo_Size:
  "ColumnType_MarshalTo m (replicate (ColumnType_Size m) 0) = Inr (enc_ColumnType m, ColumnType_Size m)"
  using ColumnType_MarshalTo_enc [of m "replicate (ColumnType_Size m) 0"]
  by (simp add: length_enc_ColumnType)

lemma ColumnDescriptor_Marshal_enc: "ColumnDescriptor_Marshal m = Inr (enc_ColumnDescriptor m)"
  unfolding ColumnDescriptor_Marshal_def
  by (rule marshal_with_enc [OF ColumnDescriptor_MarshalTo_enc length_enc_ColumnDescriptor])

lemma ColumnDescriptor_MarshalTo_Size:
  "ColumnDescriptor_MarshalTo m (replicate (ColumnDescriptor_Size m) 0) = Inr (enc_ColumnDescriptor m, ColumnDescriptor_Size m)"
  using ColumnDescriptor_MarshalTo_enc [of m "replicate (ColumnDescriptor_Size m) 0"]
  by (simp add: length_enc_ColumnDescriptor)

lemma IndexDescriptor_Marshal_enc: "IndexDescriptor_Marshal m = Inr (enc_IndexDescriptor m)"
  unfolding IndexDescriptor_Marshal_def
  by (rule marshal_with_enc [OF IndexDescriptor_MarshalTo_enc length_enc_IndexDescriptor])

lemma IndexDescriptor_MarshalTo_Size:
  "IndexDescriptor_MarshalTo m (replicate (IndexDescriptor_Size m) 0) = Inr (enc_IndexDescriptor m, IndexDescriptor_Size m)"
  using IndexDescriptor_MarshalTo_enc [of m "replicate (IndexDescriptor_Size m) 0"]
  by (simp add: length_enc_IndexDescriptor)

lemma PrivilegeDescriptor_Marshal_enc: "PrivilegeDescriptor_Marshal m = Inr (enc_PrivilegeDescriptor m)"
  unfolding PrivilegeDescriptor_Marshal_def
  by (rule marshal_with_enc [OF PrivilegeDescriptor_MarshalTo_enc length_enc_PrivilegeDescriptor])

lemma PrivilegeDescriptor_MarshalTo_Size:
  "PrivilegeDescriptor_MarshalTo m (replicate (PrivilegeDescriptor_Size m) 0) = Inr (enc_PrivilegeDescriptor m, PrivilegeDescriptor_Size m)"
  using PrivilegeDescriptor_MarshalTo_enc [of m "replicate (PrivilegeDescriptor_Size m) 0"]
  by (simp add: length_enc_PrivilegeDescriptor)

lemma TableDescriptor_Marshal_enc: "TableDescriptor_Marshal m = Inr (enc_TableDescriptor m)"
  unfolding TableDescriptor_Marshal_def
  by (rule marshal_with_enc [OF TableDescriptor_MarshalTo_enc length_enc_TableDescriptor])

lemma TableDescriptor_MarshalTo_Size:
  "TableDescriptor_MarshalTo m (replicate (TableDescriptor_Size m) 0) = Inr (enc_TableDescriptor m, TableDescriptor_Size m)"
  using TableDescriptor_MarshalTo_enc [of m "replicate (TableDescriptor_Size m) 0"]
  by (simp add: length_enc_TableDescriptor)

lemma DatabaseDescriptor_Marshal_enc: "DatabaseDescriptor_Marshal m = Inr (enc_DatabaseDescriptor m)"
  unfolding DatabaseDescriptor_Marshal_def
  by (rule marshal_with_enc [OF DatabaseDescriptor_MarshalTo_enc length_enc_DatabaseDescriptor])

lemma DatabaseDescriptor_MarshalTo_Size:
  "DatabaseDescriptor_MarshalTo m (replicate (DatabaseDescriptor_Size m) 0) = Inr (enc_DatabaseDescriptor m, DatabaseDescriptor_Size m)"
  using DatabaseDescriptor_MarshalTo_enc [of m "replicate (DatabaseDescriptor_Size m) 0"]
  by (simp add: length_enc_DatabaseDescriptor)


section \<open>Decoding what was encoded: varints\<close>

lemma bit_w127: "bit (127 :: 'a::len word) n \<longleftrightarrow> n < 7 \<and> n < LENGTH('a)"
proof -
  have "(127 :: 'a word) = mask 7" by (simp add: mask_eq_exp_minus_1)
  then have "bit (127 :: 'a word) n = bit (mask 7 :: 'a word) n" by simp
  also have "\<dots> \<longleftrightarrow> n < 7 \<and> n < LENGTH('a)" by (auto simp: bit_simps)
  finally show ?thesis .
qed

lemma bit_w128: "bit (128 :: 'a::len word) n \<longleftrightarrow> n = 7 \<and> n < LENGTH('a)"
proof -
  have "(128 :: 'a word) = 2 ^ 7" by simp
  then have "bit (128 :: 'a word) n = bit (2 ^ 7 :: 'a word) n" by (simp only:)
  also have "\<dots> \<longleftrightarrow> n = 7 \<and> n < LENGTH('a)"
    by (simp only: bit_exp_iff possible_bit_word) auto
  finally show ?thesis .
qed

lemma byte_less_128_iff: "(b::byte) < 0x80 \<longleftrightarrow> \<not> bit b 7"
proof -
  have "b < 2 ^ 7 \<longleftrightarrow> b AND mask 7 = b"
    by (rule mask_eq_iff_w2p [symmetric]) (simp add: word_size)
  also have "\<dots> \<longleftrightarrow> \<not> bit b 7"
  proof
    assume "b AND mask 7 = b"
    then have "bit b 7 = bit (b AND mask 7) 7" by simp
    then show "\<not> bit b 7" by (simp add: bit_simps)
  next
    assume n7: "\<not> bit b 7"
    show "b AND mask 7 = b"
    proof (rule bit_eqI)
      fix n
      have "bit b n \<Longrightarrow> n < 7"
      proof -
        assume bn: "bit b n"
        then have "n < 8" using bit_imp_le_length [of b n] by simp
        with bn n7 show "n < 7" by (cases "n = 7") auto
      qed
      then show "bit (b AND mask 7) n = bit b n" by (auto simp: bit_simps)
    qed
  qed
  finally show ?thesis by simp
qed

lemma w64_less_128_iff: "\<not> 128 \<le> (v::64 word) \<longleftrightarrow> (\<forall>n. bit v n \<longrightarrow> n < 7)"
proof -
  have "\<not> 128 \<le> v \<longleftrightarrow> v < 2 ^ 7" by auto
  also have "\<dots> \<longleftrightarrow> v AND mask 7 = v"
    by (rule mask_eq_iff_w2p [symmetric]) (simp add: word_size)
  also have "\<dots> \<longleftrightarrow> (\<forall>n. bit v n \<longrightarrow> n < 7)"
  proof
    assume e: "v AND mask 7 = v"
    show "\<forall>n. bit v n \<longrightarrow> n < 7"
    proof (intro allI impI)
      fix n assume "bit v n"
      then have "bit (v AND mask 7) n" by (simp only: e)
      then show "n < 7" by (simp add: bit_simps)
    qed
  next
    assume "\<forall>n. bit v n \<longrightarrow> n < 7"
    then show "v AND mask 7 = v"
      by - (rule bit_eqI, auto simp: bit_simps)
  qed
  finally show ?thesis .
qed

lemma byte_hi: "\<not> (ucast ((v::64 word) AND 0x7f OR 0x80) :: byte) < 0x80"
  by (simp add: byte_less_128_iff bit_simps bit_w128 del: bit_numeral_word_iff)

lemma byte_lo:
  assumes "\<not> 128 \<le> (v::64 word)" shows "(ucast v :: byte) < 0x80"
  using assms unfolding byte_less_128_iff w64_less_128_iff
  by (auto simp add: bit_simps)

lemma low7_hi:
  "(ucast (ucast ((v::64 word) AND 0x7f OR 0x80) :: byte) AND 0x7f :: 'a::len word) = ucast (v AND 0x7f)"
  by (rule bit_eqI) (auto simp: bit_simps bit_w127 bit_w128 simp del: bit_numeral_word_iff)

lemma low7_lo:
  assumes "\<not> 128 \<le> (v::64 word)"
  shows "(ucast (ucast v :: byte) AND 0x7f :: 'a::len word) = ucast v"
  using assms unfolding w64_less_128_iff
  by - (rule bit_eqI, auto simp: bit_simps bit_w127 bit_w128 simp del: bit_numeral_word_iff)

lemma split7:
  "push_bit s (ucast ((v::64 word) AND 0x7f) :: 'a::len word) OR push_bit (s + 7) (ucast (drop_bit 7 v))
     = push_bit s (ucast v)"
proof (rule bit_eqI)
  fix n
  assume "possible_bit TYPE('a word) n"
  have *: "s \<le> n \<Longrightarrow> \<not> n - s < 7 \<Longrightarrow> 7 + (n - (s + 7)) = n - s" by arith
  have **: "bit v (n - s) \<Longrightarrow> n - s < 64" using bit_imp_le_length [of v "n - s"] by simp
  show "bit (push_bit s (ucast (v AND 0x7f) :: 'a word) OR push_bit (s + 7) (ucast (drop_bit 7 v))) n
     = bit (push_bit s (ucast v :: 'a word)) n"
  proof (cases "s \<le> n \<and> \<not> n - s < 7")
    case True
    with * have "7 + (n - (s + 7)) = n - s" by simp
    with True ** show ?thesis
      by (auto simp: bit_simps bit_w127 simp del: bit_numeral_word_iff)
  next
    case False
    with ** show ?thesis
      by (auto simp: bit_simps bit_w127 simp del: bit_numeral_word_iff)
  qed
qed

lemma drop_eq_ConsD:
  assumes "drop i data = x # xs"
  shows "i < length data" and "data ! i = x" and "drop (Suc i) data = xs"
proof -
  show l: "i < length data" using assms by (cases "i < length data") auto
  from l have "data ! i # drop (Suc i) data = drop i data" by (rule Cons_nth_drop_Suc)
  with assms show "data ! i = x" and "drop (Suc i) data = xs" by simp_all
qed

lemma drop_eq_appendD:
  assumes "drop i data = xs @ ys"
  shows "drop (i + length xs) data = ys"
proof -
  have "drop (i + length xs) data = drop (length xs) (drop i data)"
    by (simp add: add.commute)
  with assms show "drop (i + length xs) data = ys" by simp
qed

lemma drop_eq_append_le:
  assumes "drop i data = xs @ ys" and "i \<le> length data"
  shows "i + length xs + length ys = length data"
proof -
  have "length (drop i data) = length xs + length ys" using assms by simp
  with assms(2) show ?thesis by simp
qed

lemma decode_enc_varint_gen:
  "drop i data = enc_varint v @ rest \<Longrightarrow>
   decode_varint data i s (acc :: 'a::len word)
     = Inr (acc OR push_bit s (ucast v), i + length (enc_varint v))"
proof (induction v arbitrary: i s acc rule: enc_varint.induct)
  case (1 v)
  show ?case
  proof (cases "128 \<le> v")
    case True
    then have e: "enc_varint v = ucast (v AND 0x7f OR 0x80) # enc_varint (drop_bit 7 v)"
      by (subst enc_varint.simps) simp
    with 1(2) have d: "drop i data = ucast (v AND 0x7f OR 0x80) # (enc_varint (drop_bit 7 v) @ rest)"
      by simp
    note dd = drop_eq_ConsD [OF d]
    have "decode_varint data (i + 1) (s + 7) (acc OR push_bit s (ucast (v AND 0x7f)))
        = Inr ((acc OR push_bit s (ucast (v AND 0x7f))) OR push_bit (s + 7) (ucast (drop_bit 7 v)),
               (i + 1) + length (enc_varint (drop_bit 7 v)))"
      using 1(1) [OF True] dd(3) by simp
    then show ?thesis
      using dd(1,2)
      by (subst decode_varint.simps) (simp add: e byte_hi low7_hi split7 or.assoc del: push_bit_and)
  next
    case False
    then have e: "enc_varint v = [ucast v]"
      by (subst enc_varint.simps) simp
    with 1(2) have d: "drop i data = ucast v # rest" by simp
    note dd = drop_eq_ConsD [OF d]
    show ?thesis using dd(1,2) False
      by (subst decode_varint.simps) (simp add: e byte_lo low7_lo del: push_bit_and)
  qed
qed

lemma decode_enc_varint:
  "drop i data = enc_varint v @ rest \<Longrightarrow>
   decode_varint data i 0 (0 :: 'a::len word) = Inr (ucast v, i + length (enc_varint v))"
  using decode_enc_varint_gen [of i data v rest 0 "0 :: 'a word"] by simp

lemma decode_tag:
  assumes "drop i data = t # rest" and "t < 0x80"
  shows "decode_varint data i 0 (0 :: 64 word) = Inr (ucast t AND 0x7f, Suc i)"
  using drop_eq_ConsD [OF assms(1)] assms(2)
  by (subst decode_varint.simps) (simp del: push_bit_and)

lemma field_bool_enc:
  "drop i data = enc_varint v @ rest \<Longrightarrow>
   field_bool data i m upd = Inr (upd (v \<noteq> 0), i + length (enc_varint v))"
  by (simp add: field_bool_def decode_enc_varint)

lemma field_varint_enc:
  "drop i data = enc_varint v @ rest \<Longrightarrow>
   field_varint data i upd = Inr (upd (ucast v), i + length (enc_varint v))"
  by (simp add: field_varint_def decode_enc_varint)

lemma local_varint_enc:
  "drop i data = enc_varint v @ rest \<Longrightarrow>
   local_varint data i m upd = Inr (upd (ucast v), i + length (enc_varint v))"
  by (simp add: local_varint_def decode_enc_varint)

section \<open>Unmarshal of the empty input\<close>

text \<open>
  Claim C9. For each of the six descriptor types, \<^verbatim>\<open>Unmarshal\<close> of the empty byte sequence
  into a zero value returns no error and leaves the zero value: empty strings, zero ids
  and counters, empty repeated fields, zero nested messages and no unrecognized bytes.
\<close>

theorem Unmarshal_empty_is_zero:
  "ColumnType_Unmarshal ColumnType_zero []
     = (\<lparr>ct_Kind = 0, ct_Width = 0, ct_Precision = 0, ct_XXX_unrecognized = []\<rparr>, None)
   \<and> ColumnDescriptor_Unmarshal ColumnDescriptor_zero []
     = (\<lparr>cd_Name = [], cd_ID = 0,
         cd_Type = \<lparr>ct_Kind = 0, ct_Width = 0, ct_Precision = 0, ct_XXX_unrecognized = []\<rparr>,
         cd_Nullable = False, cd_XXX_unrecognized = []\<rparr>, None)
   \<and> IndexDescriptor_Unmarshal IndexDescriptor_zero []
     = (\<lparr>ix_Name = [], ix_ID = 0, ix_Unique = False, ix_ColumnNames = [], ix_ColumnIDs = [],
         ix_XXX_unrecognized = []\<rparr>, None)
   \<and> PrivilegeDescriptor_Unmarshal PrivilegeDescriptor_zero []
     = (\<lparr>pd_Read = [], pd_Write = [], pd_XXX_unrecognized = []\<rparr>, None)
   \<and> TableDescriptor_Unmarshal TableDescriptor_zero []
     = (\<lparr>td_Name = [], td_ID = 0, td_Columns = [], td_NextColumnID = 0,
         td_PrimaryIndex = \<lparr>ix_Name = [], ix_ID = 0, ix_Unique = False, ix_ColumnNames = [],
           ix_ColumnIDs = [], ix_XXX_unrecognized = []\<rparr>,
         td_Indexes = [], td_NextIndexID = 0,
         td_PrivilegeDescriptor = \<lparr>pd_Read = [], pd_Write = [], pd_XXX_unrecognized = []\<rparr>,
         td_XXX_unrecognized = []\<rparr>, None)
   \<and> DatabaseDescriptor_Unmarshal DatabaseDescriptor_zero []
     = (\<lparr>dd_Name = [], dd_ID = 0,
         dd_PrivilegeDescriptor = \<lparr>pd_Read = [], pd_Write = [], pd_XXX_unrecognized = []\<rparr>,
         dd_XXX_unrecognized = []\<rparr>, None)"
  by (simp add: ColumnType_Unmarshal_def ColumnType_Unmarshal_loop.simps ColumnType_zero_def
      ColumnDescriptor_Unmarshal_def ColumnDescriptor_Unmarshal_loop.simps ColumnDescriptor_zero_def
      IndexDescriptor_Unmarshal_def IndexDescriptor_Unmarshal_loop.simps IndexDescriptor_zero_def
      PrivilegeDescriptor_Unmarshal_def PrivilegeDescriptor_Unmarshal_loop.simps
      PrivilegeDescriptor_zero_def
      TableDescriptor_Unmarshal_def TableDescriptor_Unmarshal_loop.simps TableDescriptor_zero_def
      DatabaseDescriptor_Unmarshal_def DatabaseDescriptor_Unmarshal_loop.simps
      DatabaseDescriptor_zero_def)


section \<open>Varints carry the bit pattern, without zig-zag\<close>

lemma ucast_scast_32_64: "(ucast (scast (x :: 32 word) :: 64 word) :: 32 word) = x"
  by (rule bit_eqI) (auto simp: bit_simps)

lemma ucast_ucast_32_64: "(ucast (ucast (x :: 32 word) :: 64 word) :: 32 word) = x"
  by (rule bit_eqI) (auto simp: bit_simps)

lemma decode_varint_roundtrip:
  "decode_varint (enc_varint v) 0 0 (0 :: 64 word) = Inr (v, sovStructured v)"
  using decode_enc_varint [of 0 "enc_varint v" v "[]", where 'a = 64]
  by (simp add: length_enc_varint)

lemma decode_varint_roundtrip_int32:
  "decode_varint (enc_varint (scast x)) 0 0 (0 :: 32 word) = Inr (x, sovStructured (scast x))"
  using decode_enc_varint [of 0 "enc_varint (scast x)" "scast x" "[]", where 'a = 32]
  by (simp add: length_enc_varint ucast_scast_32_64)

lemma encodeVarintStructured_exact:
  "encodeVarintStructured (replicate (sovStructured v) 0) 0 v = Inr (enc_varint v, sovStructured v)"
  using encodeVarintStructured_enc [of 0 v "replicate (sovStructured v) 0"]
  by (simp add: length_enc_varint)

text \<open>
  Claim C6. \<^verbatim>\<open>encodeVarintStructured\<close> writes a 64-bit value \<open>v\<close> as \<open>sovStructured v\<close> bytes
  and the varint loop reads \<open>v\<close> back from them, for every \<open>v\<close>, so in particular for 0,
  127, 128, \<open>2^32 - 1\<close> and \<open>2^64 - 1\<close>, whose bytes are listed. A signed 32-bit field is
  written as \<^verbatim>\<open>uint64(x)\<close>, its sign-extended bit pattern, with no zig-zag transform, and
  is read back into the \<^verbatim>\<open>int32\<close> unchanged: \<open>- 1\<close> takes the ten bytes
  \<^verbatim>\<open>ff ff ff ff ff ff ff ff ff 01\<close>, as the field \<^verbatim>\<open>Width\<close> of a \<^verbatim>\<open>ColumnType\<close> shows, and
  comes back as \<open>- 1\<close>.
\<close>

theorem varint_bit_pattern_roundtrip:
  "encodeVarintStructured (replicate (sovStructured v) 0) 0 v = Inr (enc_varint v, sovStructured v)
   \<and> decode_varint (enc_varint v) 0 0 (0 :: 64 word) = Inr (v, sovStructured v)
   \<and> decode_varint (enc_varint (scast x)) 0 0 (0 :: 32 word) = Inr (x, sovStructured (scast x))
   \<and> map enc_varint [0, 127, 128, 2 ^ 32 - 1, 2 ^ 64 - 1]
      = [[0], [0x7f], [0x80, 0x01], [0xff, 0xff, 0xff, 0xff, 0x0f],
         [0xff, 0xff, 0xff, 0xff, 0xff, 0xff, 0xff, 0xff, 0xff, 0x01]]
   \<and> enc_varint (scast (- 1 :: 32 word))
      = [0xff, 0xff, 0xff, 0xff, 0xff, 0xff, 0xff, 0xff, 0xff, 0x01]
   \<and> sovStructured (scast (- 1 :: 32 word)) = 10
   \<and> ColumnType_Marshal (ColumnType_zero\<lparr>ct_Width := - 1\<rparr>)
      = Inr [0x08, 0x00, 0x10, 0xff, 0xff, 0xff, 0xff, 0xff, 0xff, 0xff, 0xff, 0xff, 0x01,
             0x18, 0x00]
   \<and> ColumnType_Unmarshal ColumnType_zero
        [0x08, 0x00, 0x10, 0xff, 0xff, 0xff, 0xff, 0xff, 0xff, 0xff, 0xff, 0xff, 0x01, 0x18, 0x00]
      = (ColumnType_zero\<lparr>ct_Width := - 1\<rparr>, None)
   \<and> sint (ct_Width (ColumnType_zero\<lparr>ct_Width := - 1\<rparr>)) = - 1"
proof (intro conjI)
  show "encodeVarintStructured (replicate (sovStructured v) 0) 0 v
      = Inr (enc_varint v, sovStructured v)"
    by (rule encodeVarintStructured_exact)
  show "decode_varint (enc_varint v) 0 0 (0 :: 64 word) = Inr (v, sovStructured v)"
    by (rule decode_varint_roundtrip)
  show "decode_varint (enc_varint (scast x)) 0 0 (0 :: 32 word) = Inr (x, sovStructured (scast x))"
    by (rule decode_varint_roundtrip_int32)
  show "map enc_varint [0, 127, 128, 2 ^ 32 - 1, 2 ^ 64 - 1]
      = [[0], [0x7f], [0x80, 0x01], [0xff, 0xff, 0xff, 0xff, 0x0f],
         [0xff, 0xff, 0xff, 0xff, 0xff, 0xff, 0xff, 0xff, 0xff, 0x01]]"
    by code_simp
  show "enc_varint (scast (- 1 :: 32 word))
      = [0xff, 0xff, 0xff, 0xff, 0xff, 0xff, 0xff, 0xff, 0xff, 0x01]"
    by code_simp
  show "sovStructured (scast (- 1 :: 32 word)) = 10"
    by code_simp
  show "ColumnType_Marshal (ColumnType_zero\<lparr>ct_Width := - 1\<rparr>)
      = Inr [0x08, 0x00, 0x10, 0xff, 0xff, 0xff, 0xff, 0xff, 0xff, 0xff, 0xff, 0xff, 0x01,
             0x18, 0x00]"
    by code_simp
  show "ColumnType_Unmarshal ColumnType_zero
        [0x08, 0x00, 0x10, 0xff, 0xff, 0xff, 0xff, 0xff, 0xff, 0xff, 0xff, 0xff, 0x01, 0x18, 0x00]
      = (ColumnType_zero\<lparr>ct_Width := - 1\<rparr>, None)"
    by code_simp
  show "sint (ct_Width (ColumnType_zero\<lparr>ct_Width := - 1\<rparr>)) = - 1"
    by simp
qed


section \<open>Runs on concrete inputs\<close>

text \<open>The equations that let the simplifier run the decoder on a given byte list.\<close>

lemmas eval_wire = decode_varint.simps skip_varint.simps skipStructured.simps skip_group.simps
  sovStructured.simps read_bytes_def read_msg_def skip_unknown_def field_varint_def
  local_varint_def field_bool_def field_bytes_def field_msg_def field_unknown_def go_add_def
  Let_def

lemmas eval_Unmarshal =
  ColumnType_Unmarshal_def ColumnType_Unmarshal_loop.simps ColumnType_field_def
  ColumnDescriptor_Unmarshal_def ColumnDescriptor_Unmarshal_loop.simps ColumnDescriptor_field_def
  IndexDescriptor_Unmarshal_def IndexDescriptor_Unmarshal_loop.simps IndexDescriptor_field_def
  PrivilegeDescriptor_Unmarshal_def PrivilegeDescriptor_Unmarshal_loop.simps
  PrivilegeDescriptor_field_def
  TableDescriptor_Unmarshal_def TableDescriptor_Unmarshal_loop.simps TableDescriptor_field_def
  DatabaseDescriptor_Unmarshal_def DatabaseDescriptor_Unmarshal_loop.simps
  DatabaseDescriptor_field_def

lemmas eval_zero = ColumnType_zero_def ColumnDescriptor_zero_def IndexDescriptor_zero_def
  PrivilegeDescriptor_zero_def TableDescriptor_zero_def DatabaseDescriptor_zero_def

text \<open>
  Claim C3, at an input where the code departs from it. The three bytes \<^verbatim>\<open>f8 00 05\<close> are
  one field: the tag 120 (field number 15, which no descriptor has, wire type 0) written
  as a two-byte varint, and the payload 5. \<^verbatim>\<open>ColumnType.Unmarshal\<close> returns nil, but the
  default case steps back by \<^verbatim>\<open>sizeOfWire\<close>, the minimal length of the tag (one byte), not
  by the two bytes it read: the bytes it keeps are \<^verbatim>\<open>00 05\<close>, and \<^verbatim>\<open>Marshal\<close> writes those, so
  the tag byte \<^verbatim>\<open>f8\<close> is gone. The same field with its tag in minimal form, \<^verbatim>\<open>78 05\<close>, is
  kept and written back whole.
\<close>

theorem unrecognized_tag_not_minimal_is_cut:
  "ColumnType_Unmarshal ColumnType_zero [0xf8, 0x00, 0x05]
     = (ColumnType_zero\<lparr>ct_XXX_unrecognized := [0x00, 0x05]\<rparr>, None)
   \<and> ColumnType_Marshal (ColumnType_zero\<lparr>ct_XXX_unrecognized := [0x00, 0x05]\<rparr>)
     = Inr [0x08, 0x00, 0x10, 0x00, 0x18, 0x00, 0x00, 0x05]
   \<and> ColumnType_Unmarshal ColumnType_zero [0x78, 0x05]
     = (ColumnType_zero\<lparr>ct_XXX_unrecognized := [0x78, 0x05]\<rparr>, None)
   \<and> ColumnType_Marshal (ColumnType_zero\<lparr>ct_XXX_unrecognized := [0x78, 0x05]\<rparr>)
     = Inr [0x08, 0x00, 0x10, 0x00, 0x18, 0x00, 0x78, 0x05]"
proof (intro conjI)
  show "ColumnType_Unmarshal ColumnType_zero [0xf8, 0x00, 0x05]
     = (ColumnType_zero\<lparr>ct_XXX_unrecognized := [0x00, 0x05]\<rparr>, None)"
    by (simp add: eval_wire eval_Unmarshal eval_zero)
  show "ColumnType_Marshal (ColumnType_zero\<lparr>ct_XXX_unrecognized := [0x00, 0x05]\<rparr>)
     = Inr [0x08, 0x00, 0x10, 0x00, 0x18, 0x00, 0x00, 0x05]"
    by code_simp
  show "ColumnType_Unmarshal ColumnType_zero [0x78, 0x05]
     = (ColumnType_zero\<lparr>ct_XXX_unrecognized := [0x78, 0x05]\<rparr>, None)"
    by (simp add: eval_wire eval_Unmarshal eval_zero)
  show "ColumnType_Marshal (ColumnType_zero\<lparr>ct_XXX_unrecognized := [0x78, 0x05]\<rparr>)
     = Inr [0x08, 0x00, 0x10, 0x00, 0x18, 0x00, 0x78, 0x05]"
    by code_simp
qed

text \<open>
  Claim C7, at inputs where the code departs from it. A string field has no test of a
  negative length: for the field \<^verbatim>\<open>Name\<close> of a \<^verbatim>\<open>ColumnDescriptor\<close> with the length prefix
  \<open>2^64 - 1\<close>, which is \<open>- 1\<close> as an \<^verbatim>\<open>int\<close>, \<^verbatim>\<open>postIndex\<close> is below \<^verbatim>\<open>iNdEx\<close> and the slice
  expression \<^verbatim>\<open>data[iNdEx:postIndex]\<close> panics, where the nested-message field \<^verbatim>\<open>Type\<close> with
  the same prefix returns \<^verbatim>\<open>ErrInvalidLengthStructured\<close>. And a tag of wire type 6 on the
  unknown field number 15 is accepted when its varint is not minimal (\<^verbatim>\<open>fe 00\<close>): the
  default case steps back one byte only, \<^verbatim>\<open>skipStructured\<close> starts at the byte \<^verbatim>\<open>00\<close> and
  never sees the wire type. On the tag in minimal form \<^verbatim>\<open>skipStructured\<close> and \<^verbatim>\<open>Unmarshal\<close>
  do return the illegal-wire-type error.
\<close>

theorem malformed_input_not_always_an_error:
  "ColumnDescriptor_Unmarshal ColumnDescriptor_zero
     [0x0a, 0xff, 0xff, 0xff, 0xff, 0xff, 0xff, 0xff, 0xff, 0xff, 0x01]
     = (ColumnDescriptor_zero, Some Panic)
   \<and> ColumnDescriptor_Unmarshal ColumnDescriptor_zero
     [0x1a, 0xff, 0xff, 0xff, 0xff, 0xff, 0xff, 0xff, 0xff, 0xff, 0x01]
     = (ColumnDescriptor_zero, Some ErrInvalidLengthStructured)
   \<and> ColumnType_Unmarshal ColumnType_zero [0xfe, 0x00, 0x00]
     = (ColumnType_zero\<lparr>ct_XXX_unrecognized := [0x00, 0x00]\<rparr>, None)
   \<and> skipStructured [0x7e, 0x00] = Inl (ErrIllegalWireType 6)
   \<and> ColumnType_Unmarshal ColumnType_zero [0x7e, 0x00]
     = (ColumnType_zero, Some (ErrIllegalWireType 6))"
proof (intro conjI)
  show "ColumnDescriptor_Unmarshal ColumnDescriptor_zero
     [0x0a, 0xff, 0xff, 0xff, 0xff, 0xff, 0xff, 0xff, 0xff, 0xff, 0x01]
     = (ColumnDescriptor_zero, Some Panic)"
    by (simp add: eval_wire eval_Unmarshal eval_zero)
  show "ColumnDescriptor_Unmarshal ColumnDescriptor_zero
     [0x1a, 0xff, 0xff, 0xff, 0xff, 0xff, 0xff, 0xff, 0xff, 0xff, 0x01]
     = (ColumnDescriptor_zero, Some ErrInvalidLengthStructured)"
    by (simp add: eval_wire eval_Unmarshal eval_zero)
  show "ColumnType_Unmarshal ColumnType_zero [0xfe, 0x00, 0x00]
     = (ColumnType_zero\<lparr>ct_XXX_unrecognized := [0x00, 0x00]\<rparr>, None)"
    by (simp add: eval_wire eval_Unmarshal eval_zero)
  show "skipStructured [0x7e, 0x00] = Inl (ErrIllegalWireType 6)"
    by (simp add: eval_wire)
  show "ColumnType_Unmarshal ColumnType_zero [0x7e, 0x00]
     = (ColumnType_zero, Some (ErrIllegalWireType 6))"
    by (simp add: eval_wire eval_Unmarshal eval_zero)
qed


section \<open>Decoding what Marshal wrote\<close>

text \<open>
  \<open>decodes step F u\<close>: wherever the bytes \<open>F\<close> of one field stand in a slice (a Go slice,
  shorter than \<open>2 ^ 63\<close>), one pass of the loop body \<open>step\<close> from their first byte consumes
  exactly them and changes the receiver by \<open>u\<close>. \<open>loop_of loop step\<close> says that \<open>loop\<close> is
  the loop \<^verbatim>\<open>for iNdEx < l\<close> around the body \<open>step\<close>.
\<close>

definition decodes ::
  "(byte list \<Rightarrow> nat \<Rightarrow> 'm \<Rightarrow> ('m \<times> error) + ('m \<times> nat)) \<Rightarrow> byte list \<Rightarrow> ('m \<Rightarrow> 'm) \<Rightarrow> bool" where
  "decodes step F u \<longleftrightarrow>
     F \<noteq> [] \<and>
     (\<forall>data i m rest. drop i data = F @ rest \<longrightarrow> length data < 2 ^ 63 \<longrightarrow>
        step data i m = Inr (u m, i + length F))"

definition loop_of ::
  "(byte list \<Rightarrow> nat \<Rightarrow> 'm \<Rightarrow> 'm \<times> error option)
   \<Rightarrow> (byte list \<Rightarrow> nat \<Rightarrow> 'm \<Rightarrow> ('m \<times> error) + ('m \<times> nat)) \<Rightarrow> bool" where
  "loop_of loop step \<longleftrightarrow>
     (\<forall>data i m. loop data i m =
        (if i < length data then
           (case step data i m of Inl (m, e) \<Rightarrow> (m, Some e) | Inr (m, i) \<Rightarrow> loop data i m)
         else (m, None)))"

lemma sint_of_nat_64:
  assumes "n < 2 ^ 63"
  shows "sint (of_nat n :: 64 word) = int n"
proof -
  have "sint (of_nat n :: 64 word) = signed_take_bit 63 (int n)"
    by (simp add: signed_of_nat)
  also have "\<dots> = int n"
    using assms by (intro signed_take_bit_int_eq_self) auto
  finally show ?thesis .
qed

lemma enc_varint_nonempty: "enc_varint v \<noteq> []"
  by (subst enc_varint.simps) simp

lemma read_bytes_enc:
  assumes d: "drop i data = enc_varint (of_nat (length s)) @ s @ rest"
    and l: "length data < 2 ^ 63"
  shows "read_bytes data i = Inr (s, i + length (enc_varint (of_nat (length s))) + length s)"
proof -
  let ?j = "i + length (enc_varint (of_nat (length s)))"
  have il: "i \<le> length data" using d enc_varint_nonempty [of "of_nat (length s)"]
    by (cases "i \<le> length data") auto
  have dj: "drop ?j data = s @ rest" by (rule drop_eq_appendD [OF d])
  have tot: "?j + length s + length rest = length data"
    using drop_eq_append_le [OF d il] by simp
  have dec: "decode_varint data i 0 (0 :: 64 word) = Inr (of_nat (length s), ?j)"
    using decode_enc_varint [OF d, where 'a = 64] by simp
  have sl: "sint (of_nat (length s) :: 64 word) = int (length s)"
    using tot l by (intro sint_of_nat_64) simp
  have ga: "go_add (int ?j) (int (length s)) = int (?j + length s)"
    using tot l by (simp add: go_add_def Let_def)
  show ?thesis
    using tot dj by (simp add: read_bytes_def dec sl ga del: of_nat_add)
qed

lemma read_msg_enc:
  assumes d: "drop i data = enc_varint (of_nat (length s)) @ s @ rest"
    and l: "length data < 2 ^ 63"
  shows "read_msg data i = Inr (s, i + length (enc_varint (of_nat (length s))) + length s)"
proof -
  let ?j = "i + length (enc_varint (of_nat (length s)))"
  have il: "i \<le> length data" using d enc_varint_nonempty [of "of_nat (length s)"]
    by (cases "i \<le> length data") auto
  have dj: "drop ?j data = s @ rest" by (rule drop_eq_appendD [OF d])
  have tot: "?j + length s + length rest = length data"
    using drop_eq_append_le [OF d il] by simp
  have dec: "decode_varint data i 0 (0 :: 64 word) = Inr (of_nat (length s), ?j)"
    using decode_enc_varint [OF d, where 'a = 64] by simp
  have sl: "sint (of_nat (length s) :: 64 word) = int (length s)"
    using tot l by (intro sint_of_nat_64) simp
  have ga: "go_add (int ?j) (int (length s)) = int (?j + length s)"
    using tot l by (simp add: go_add_def Let_def)
  show ?thesis
    using tot dj by (simp add: read_msg_def dec sl ga del: of_nat_add)
qed

lemma loop_fields:
  assumes lo: "loop_of loop step"
    and fs: "list_all2 (decodes step) Fs us"
    and d: "drop i data = concat Fs @ rest"
    and l: "length data < 2 ^ 63"
  shows "loop data i m = loop data (i + length (concat Fs)) (fold (\<lambda>u. u) us m)"
  using fs d
proof (induction Fs us arbitrary: i m rule: list_all2_induct)
  case Nil
  then show ?case by simp
next
  case (Cons F Fs u us)
  from Cons.hyps(1) have ne: "F \<noteq> []"
    and st: "step data i m = Inr (u m, i + length F)"
    using Cons.prems l by (auto simp: decodes_def)
  from Cons.prems ne have il: "i < length data"
    by (cases "i < length data") auto
  have dn: "drop (i + length F) data = concat Fs @ rest"
    using drop_eq_appendD [of i data F "concat Fs @ rest"] Cons.prems by simp
  have "loop data i m = loop data (i + length F) (u m)"
    using lo il st by (subst lo [unfolded loop_of_def, rule_format]) simp
  also have "\<dots> = loop data (i + length F + length (concat Fs)) (fold (\<lambda>u. u) us (u m))"
    by (rule Cons.IH [OF dn])
  finally show ?case by (simp add: add.assoc)
qed



lemma decodes_field_varint:
  assumes "\<And>data i m rest. drop i data = t # rest \<Longrightarrow>
             step data i m = field_varint data (Suc i) (\<lambda>v. upd m v)"
  shows "decodes step (t # enc_varint v) (\<lambda>m. upd m (ucast v))"
  unfolding decodes_def
proof (intro conjI allI impI)
  fix data i m rest
  assume d: "drop i data = (t # enc_varint v) @ rest"
  then have d': "drop i data = t # (enc_varint v @ rest)" by simp
  from drop_eq_ConsD(3) [OF d'] have "drop (Suc i) data = enc_varint v @ rest" .
  from field_varint_enc [OF this] assms [OF d']
  show "step data i m = Inr (upd m (ucast v), i + length (t # enc_varint v))" by simp
qed simp

lemma decodes_local_varint:
  assumes "\<And>data i m rest. drop i data = t # rest \<Longrightarrow>
             step data i m = local_varint data (Suc i) m (\<lambda>v. upd m v)"
  shows "decodes step (t # enc_varint v) (\<lambda>m. upd m (ucast v))"
  unfolding decodes_def
proof (intro conjI allI impI)
  fix data i m rest
  assume d: "drop i data = (t # enc_varint v) @ rest"
  then have d': "drop i data = t # (enc_varint v @ rest)" by simp
  from drop_eq_ConsD(3) [OF d'] have "drop (Suc i) data = enc_varint v @ rest" .
  from local_varint_enc [OF this] assms [OF d']
  show "step data i m = Inr (upd m (ucast v), i + length (t # enc_varint v))" by simp
qed simp

lemma not_128_le_1: "\<not> (128 :: 64 word) \<le> 1"
  by (simp add: word_le_nat_alt)

lemma enc_varint_bool: "enc_varint (if b then 1 else 0) = [if b then 1 else 0]"
  by (cases b) (simp_all add: enc_varint.simps not_128_le_1)

lemma decodes_field_bool:
  assumes "\<And>data i m rest. drop i data = t # rest \<Longrightarrow>
             step data i m = field_bool data (Suc i) m (\<lambda>b. upd m b)"
  shows "decodes step (enc_bool t b) (\<lambda>m. upd m b)"
  unfolding decodes_def
proof (intro conjI allI impI)
  fix data i m rest
  let ?v = "(if b then 1 else 0) :: 64 word"
  assume d: "drop i data = enc_bool t b @ rest"
  then have d': "drop i data = t # (enc_varint ?v @ rest)"
    by (simp add: enc_bool_def enc_varint_bool)
  from drop_eq_ConsD(3) [OF d'] have "drop (Suc i) data = enc_varint ?v @ rest" .
  then have "field_bool data (Suc i) m (\<lambda>b. upd m b)
      = Inr (upd m (?v \<noteq> 0), Suc i + length (enc_varint ?v))"
    by (rule field_bool_enc)
  moreover have "(?v \<noteq> 0) = b" by simp
  ultimately show "step data i m = Inr (upd m b, i + length (enc_bool t b))"
    using assms [OF d'] by (simp add: enc_bool_def enc_varint_bool)
qed (simp add: enc_bool_def)

lemma decodes_field_int32:
  assumes "\<And>data i m rest. drop i data = t # rest \<Longrightarrow>
             step data i m = field_varint data (Suc i) (\<lambda>v. upd m v)"
  shows "decodes step (t # enc_varint (scast x)) (\<lambda>m. upd m (x :: 32 word))"
  using decodes_field_varint [of t step upd "scast x", OF assms]
  by (simp add: ucast_scast_32_64)

lemma decodes_field_ID:
  assumes "\<And>data i m rest. drop i data = t # rest \<Longrightarrow>
             step data i m = field_varint data (Suc i) (\<lambda>v. upd m v)"
  shows "decodes step (t # enc_varint (ucast x)) (\<lambda>m. upd m (x :: 32 word))"
  using decodes_field_varint [of t step upd "ucast x", OF assms]
  by (simp add: ucast_ucast_32_64)

lemma decodes_local_ID:
  assumes "\<And>data i m rest. drop i data = t # rest \<Longrightarrow>
             step data i m = local_varint data (Suc i) m (\<lambda>v. upd m v)"
  shows "decodes step (t # enc_varint (ucast x)) (\<lambda>m. upd m (x :: 32 word))"
  using decodes_local_varint [of t step upd "ucast x", OF assms]
  by (simp add: ucast_ucast_32_64)

lemma decodes_field_bytes:
  assumes "\<And>data i m rest. drop i data = t # rest \<Longrightarrow>
             step data i m = field_bytes data (Suc i) m (\<lambda>s. upd m s)"
  shows "decodes step (enc_bytes t s) (\<lambda>m. upd m s)"
  unfolding decodes_def
proof (intro conjI allI impI)
  fix data i m rest
  assume d: "drop i data = enc_bytes t s @ rest" and l: "length data < 2 ^ 63"
  from d have d': "drop i data = t # (enc_varint (of_nat (length s)) @ s @ rest)"
    by (simp add: enc_bytes_def)
  from drop_eq_ConsD(3) [OF d']
  have "drop (Suc i) data = enc_varint (of_nat (length s)) @ s @ rest" .
  from read_bytes_enc [OF this l] assms [OF d']
  show "step data i m = Inr (upd m s, i + length (enc_bytes t s))"
    by (simp add: field_bytes_def enc_bytes_def)
qed (simp add: enc_bytes_def)

lemma decodes_field_msg:
  assumes "\<And>data i m rest. drop i data = t # rest \<Longrightarrow>
             step data i m = field_msg data (Suc i) m (sub m) (\<lambda>x. upd m x)"
    and "\<And>m. length bs < 2 ^ 63 \<Longrightarrow> sub m bs = (res m, None)"
  shows "decodes step (enc_bytes t bs) (\<lambda>m. upd m (res m))"
  unfolding decodes_def
proof (intro conjI allI impI)
  fix data i m rest
  assume d: "drop i data = enc_bytes t bs @ rest" and l: "length data < 2 ^ 63"
  from d have d': "drop i data = t # (enc_varint (of_nat (length bs)) @ bs @ rest)"
    by (simp add: enc_bytes_def)
  have "length (drop i data) \<le> length data" by simp
  with d l have "length bs < 2 ^ 63" by (simp add: enc_bytes_def)
  note r = assms(2) [OF this]
  from drop_eq_ConsD(3) [OF d']
  have "drop (Suc i) data = enc_varint (of_nat (length bs)) @ bs @ rest" .
  from read_msg_enc [OF this l] assms(1) [OF d'] r
  show "step data i m = Inr (upd m (res m), i + length (enc_bytes t bs))"
    by (simp add: field_msg_def enc_bytes_def)
qed (simp add: enc_bytes_def)

lemma list_all2_mapI:
  assumes "\<And>x. x \<in> set xs \<Longrightarrow> P (f x) (g x)"
  shows "list_all2 P (map f xs) (map g xs)"
  using assms by (induction xs) auto

subsection \<open>Unrecognized fields\<close>

text \<open>
  The bytes that a descriptor may carry in \<^verbatim>\<open>XXX_unrecognized\<close>: a sequence of whole fields
  whose numbers the message does not know. \<open>unknown_fields known bs\<close> reads \<open>bs\<close> field by
  field: a tag, written in as few bytes as its value needs, whose field number (taken as
  \<^verbatim>\<open>int32(wire >> 3)\<close>, as \<^verbatim>\<open>Unmarshal\<close> takes it) is not in \<open>known\<close>, and then a payload that
  is complete: a varint for wire type 0, 8 bytes for wire type 1, a length and that many
  bytes for wire type 2, 4 bytes for wire type 5. \<open>field_end\<close> gives the index behind
  the payload. Groups (wire types 3 and 4) are left out.
\<close>

definition field_end :: "nat \<Rightarrow> byte list \<Rightarrow> nat \<Rightarrow> nat option" where
  "field_end wireType bs i =
     (if wireType = 0 then
        (case skip_varint bs i of Inl _ \<Rightarrow> None | Inr j \<Rightarrow> Some j)
      else if wireType = 1 then (if i + 8 \<le> length bs then Some (i + 8) else None)
      else if wireType = 2 then
        (case decode_varint bs i 0 (0 :: 64 word) of
           Inl _ \<Rightarrow> None
         | Inr (len, j) \<Rightarrow> if j + unat len \<le> length bs then Some (j + unat len) else None)
      else if wireType = 5 then (if i + 4 \<le> length bs then Some (i + 4) else None)
      else None)"

lemma field_end_bounds:
  "field_end wt bs i = Some j \<Longrightarrow> i < j \<and> j \<le> length bs"
  by (auto simp: field_end_def split: if_splits sum.splits prod.splits
      dest: skip_varint_bounds decode_varint_bounds)

function unknown_fields :: "32 word list \<Rightarrow> byte list \<Rightarrow> bool" where
  "unknown_fields known bs =
     (if bs = [] then True
      else case decode_varint bs 0 0 (0 :: 64 word) of
          Inl _ \<Rightarrow> False
        | Inr (wire, i) \<Rightarrow>
            (case field_end (unat (wire AND 0x7)) bs i of
               None \<Rightarrow> False
             | Some j \<Rightarrow>
                 take i bs = enc_varint wire
                 \<and> ucast (drop_bit 3 wire) \<notin> set known
                 \<and> unknown_fields known (drop j bs)))"
  by pat_completeness auto
termination
  by (relation "measure (\<lambda>(known, bs). length bs)")
    (auto dest!: field_end_bounds decode_varint_bounds)

declare unknown_fields.simps [simp del]

lemma skipStructured_field_end:
  assumes t: "decode_varint bs 0 0 (0 :: 64 word) = Inr (wire, i)"
    and e: "field_end (unat (wire AND 0x7)) bs i = Some j"
    and l: "length bs < 2 ^ 63"
  shows "skipStructured bs = Inr (int j)"
proof -
  from decode_varint_bounds [OF t] have i: "0 < i" "i \<le> length bs" by auto
  then have ne: "0 < length bs" by linarith
  from field_end_bounds [OF e] have j: "i < j" "j \<le> length bs" by auto
  let ?wt = "unat (wire AND 0x7)"
  from e have wt: "?wt = 0 \<or> ?wt = 1 \<or> ?wt = 2 \<or> ?wt = 5"
    by (auto simp: field_end_def split: if_splits)
  have ga: "\<And>a b. a + b \<le> length bs \<Longrightarrow> go_add (int a) (int b) = int (a + b)"
    using l by (simp add: go_add_def Let_def)
  from wt show ?thesis
  proof (elim disjE)
    assume w: "?wt = 0"
    with e have "skip_varint bs i = Inr j"
      by (auto simp: field_end_def split: sum.splits)
    with w t l ne show ?thesis
      by (subst skipStructured.simps) (simp add: Let_def)
  next
    assume w: "?wt = 1"
    with e have "j = i + 8" by (auto simp: field_end_def split: if_splits)
    with w t l ne j ga [of i 8] show ?thesis
      by (subst skipStructured.simps) (simp add: Let_def)
  next
    assume w: "?wt = 2"
    with e obtain len k where d: "decode_varint bs i 0 (0 :: 64 word) = Inr (len, k)"
      and k: "j = k + unat len" "k + unat len \<le> length bs"
      by (auto simp: field_end_def split: sum.splits prod.splits if_splits)
    from k l have ul: "unat len < 2 ^ 63" by simp
    have "sint (of_nat (unat len) :: 64 word) = int (unat len)"
      using ul by (rule sint_of_nat_64)
    then have sl: "sint len = int (unat len)" by simp
    from w t l ne d k ga [of k "unat len"] show ?thesis
      by (subst skipStructured.simps) (simp add: Let_def sl)
  next
    assume w: "?wt = 5"
    with e have "j = i + 4" by (auto simp: field_end_def split: if_splits)
    with w t l ne j ga [of i 4] show ?thesis
      by (subst skipStructured.simps) (simp add: Let_def)
  qed
qed

text \<open>One pass of the loop over an unrecognized field at the head of \<open>bs\<close>, and the loop
  over a whole buffer of them.\<close>

lemma step_unknown:
  assumes dispatch: "\<And>data i m wire j. decode_varint data i 0 (0 :: 64 word) = Inr (wire, j) \<Longrightarrow>
             ucast (drop_bit 3 wire) \<notin> set known \<Longrightarrow>
             step data i m = field_unknown data j wire m (app m)"
    and d: "drop i data = bs" and il: "i \<le> length data" and l: "length data < 2 ^ 63"
    and t: "decode_varint bs 0 0 (0 :: 64 word) = Inr (wire, k)"
    and e: "field_end (unat (wire AND 0x7)) bs k = Some j"
    and mn: "take k bs = enc_varint wire"
    and un: "ucast (drop_bit 3 wire) \<notin> set known"
  shows "step data i m = Inr (app m (take j bs), i + j)"
proof -
  from decode_varint_bounds [OF t] have k: "0 < k" "k \<le> length bs" by auto
  from field_end_bounds [OF e] have j: "k < j" "j \<le> length bs" by auto
  have lb: "length data = i + length bs" using d il by auto
  with l have lbs: "length bs < 2 ^ 63" by simp
  have kl: "length (enc_varint wire) = k" using mn k by (metis length_take min.absorb2)
  have "bs = enc_varint wire @ drop k bs" using mn by (metis append_take_drop_id)
  with d have dd: "drop i data = enc_varint wire @ drop k bs" by simp
  have dec: "decode_varint data i 0 (0 :: 64 word) = Inr (wire, i + k)"
    using decode_enc_varint [OF dd, where 'a = 64] kl by simp
  have sk: "skipStructured (drop i data) = Inr (int j)"
    unfolding d by (rule skipStructured_field_end [OF t e lbs])
  have ga: "go_add (int i) (int j) = int (i + j)"
    using l lb j by (simp add: go_add_def Let_def)
  have rw: "int (i + k) - int k = int i" by simp
  have "skip_unknown data (i + k) wire = Inr (take j bs, i + j)"
    using sk ga lb j d
    by (simp add: skip_unknown_def Let_def length_enc_varint [symmetric] kl rw del: of_nat_add)
  then show ?thesis
    using dispatch [OF dec un, of m] by (simp add: field_unknown_def)
qed

lemma loop_unknown:
  assumes lo: "loop_of loop step"
    and dispatch: "\<And>data i m wire j. decode_varint data i 0 (0 :: 64 word) = Inr (wire, j) \<Longrightarrow>
             ucast (drop_bit 3 wire) \<notin> set known \<Longrightarrow>
             step data i m = field_unknown data j wire m (app m)"
    and app: "\<And>m. app m [] = m" "\<And>m a b. app (app m a) b = app m (a @ b)"
    and l: "length data < 2 ^ 63"
    and u: "unknown_fields known bs"
    and d: "drop i data = bs" and il: "i \<le> length data"
  shows "loop data i m = (app m bs, None)"
proof -
  have "unknown_fields kn bs \<Longrightarrow> kn = known \<Longrightarrow> drop i data = bs \<Longrightarrow> i \<le> length data \<Longrightarrow>
        loop data i m = (app m bs, None)" for kn
  proof (induction kn bs arbitrary: i m rule: unknown_fields.induct)
    case (1 kn bs)
    note kn = "1.prems"(2)
    show ?case
    proof (cases "bs = []")
      case True
      with "1.prems" have "\<not> i < length data" by simp
      with True show ?thesis
        by (subst lo [unfolded loop_of_def, rule_format]) (simp add: app)
    next
      case False
      with "1.prems"(1) obtain wire k j where t: "decode_varint bs 0 0 (0 :: 64 word) = Inr (wire, k)"
        and e: "field_end (unat (wire AND 0x7)) bs k = Some j"
        and mn: "take k bs = enc_varint wire"
        and un: "ucast (drop_bit 3 wire) \<notin> set kn"
        and rest: "unknown_fields kn (drop j bs)"
        by (subst (asm) unknown_fields.simps) (auto split: sum.splits prod.splits option.splits)
      from field_end_bounds [OF e] have j: "0 < j" "j \<le> length bs" by auto
      from False "1.prems" have il: "i < length data" by auto
      then have il': "i \<le> length data" by simp
      have st: "step data i m = Inr (app m (take j bs), i + j)"
        using un unfolding kn
        by (intro step_unknown [where known = known and app = app, OF dispatch "1.prems"(3) il' l t e mn])
      have "drop (i + j) data = drop j (drop i data)" by (simp add: add.commute)
      with "1.prems"(3) have dn: "drop (i + j) data = drop j bs" by simp
      have ij: "i + j \<le> length data" using "1.prems"(3) j il' by auto
      have "loop data i m = loop data (i + j) (app m (take j bs))"
        using il st by (subst lo [unfolded loop_of_def, rule_format]) simp
      also have "\<dots> = (app (app m (take j bs)) (drop j bs), None)"
        by (rule "1.IH" [OF False t refl e rest kn dn ij])
      finally show ?thesis by (simp add: app)
    qed
  qed
  from this [OF u refl d il] show ?thesis .
qed

lemma loop_fields_unknown:
  assumes lo: "loop_of loop step"
    and fs: "list_all2 (decodes step) Fs us"
    and dispatch: "\<And>data i m wire j. decode_varint data i 0 (0 :: 64 word) = Inr (wire, j) \<Longrightarrow>
             ucast (drop_bit 3 wire) \<notin> set known \<Longrightarrow>
             step data i m = field_unknown data j wire m (app m)"
    and app: "\<And>m. app m [] = m" "\<And>m a b. app (app m a) b = app m (a @ b)"
    and u: "unknown_fields known X"
    and l: "length (concat Fs @ X) < 2 ^ 63"
  shows "loop (concat Fs @ X) 0 m = (app (fold (\<lambda>u. u) us m) X, None)"
proof -
  let ?data = "concat Fs @ X"
  have "loop ?data 0 m = loop ?data (0 + length (concat Fs)) (fold (\<lambda>u. u) us m)"
    by (rule loop_fields [OF lo fs _ l, of 0 X]) simp
  also have "\<dots> = (app (fold (\<lambda>u. u) us m) X, None)"
    by (rule loop_unknown [where known = known and app = app, OF lo dispatch app l u]) simp_all
  finally show ?thesis .
qed

subsection \<open>The six descriptors\<close>

text \<open>
  \<open>valid_T d\<close>: the unrecognized bytes of \<open>d\<close>, and of the messages nested in it, are
  fields that \<open>T\<close> does not know, as above. \<open>plain_T d\<close>: there are no unrecognized bytes
  in \<open>d\<close>, nor in the messages nested in it. \<open>upds_T d\<close> lists, field by field in the order
  of \<open>fields_T d\<close>, what decoding each field does to the receiver, \<open>app_T m bs\<close> is the
  receiver \<open>m\<close> after the capture of the bytes \<open>bs\<close>, and \<open>apply_T d m\<close> is the receiver \<open>m\<close>
  after all the fields of \<open>d\<close> and then its unrecognized bytes.
\<close>

definition valid_ColumnType :: "ColumnType \<Rightarrow> bool" where
  "valid_ColumnType d \<longleftrightarrow>
     unknown_fields [1, 2, 3] (ct_XXX_unrecognized d)"

definition plain_ColumnType :: "ColumnType \<Rightarrow> bool" where
  "plain_ColumnType d \<longleftrightarrow>
     ct_XXX_unrecognized d = []"

definition app_ColumnType :: "ColumnType \<Rightarrow> byte list \<Rightarrow> ColumnType" where
  "app_ColumnType m = (\<lambda>bs. m\<lparr>ct_XXX_unrecognized := ct_XXX_unrecognized m @ bs\<rparr>)"

definition upds_ColumnType :: "ColumnType \<Rightarrow> (ColumnType \<Rightarrow> ColumnType) list" where
  "upds_ColumnType d =
     [(\<lambda>m. m\<lparr>ct_Kind := ct_Kind d\<rparr>),
      (\<lambda>m. m\<lparr>ct_Width := ct_Width d\<rparr>),
      (\<lambda>m. m\<lparr>ct_Precision := ct_Precision d\<rparr>)]"

definition apply_ColumnType :: "ColumnType \<Rightarrow> ColumnType \<Rightarrow> ColumnType" where
  "apply_ColumnType d m = app_ColumnType (fold (\<lambda>u. u) (upds_ColumnType d) m) (ct_XXX_unrecognized d)"

definition valid_ColumnDescriptor :: "ColumnDescriptor \<Rightarrow> bool" where
  "valid_ColumnDescriptor d \<longleftrightarrow>
     unknown_fields [1, 2, 3, 4] (cd_XXX_unrecognized d)
     \<and> valid_ColumnType (cd_Type d)"

definition plain_ColumnDescriptor :: "ColumnDescriptor \<Rightarrow> bool" where
  "plain_ColumnDescriptor d \<longleftrightarrow>
     cd_XXX_unrecognized d = []
     \<and> plain_ColumnType (cd_Type d)"

definition app_ColumnDescriptor :: "ColumnDescriptor \<Rightarrow> byte list \<Rightarrow> ColumnDescriptor" where
  "app_ColumnDescriptor m = (\<lambda>bs. m\<lparr>cd_XXX_unrecognized := cd_XXX_unrecognized m @ bs\<rparr>)"

definition upds_ColumnDescriptor :: "ColumnDescriptor \<Rightarrow> (ColumnDescriptor \<Rightarrow> ColumnDescriptor) list" where
  "upds_ColumnDescriptor d =
     [(\<lambda>m. m\<lparr>cd_Name := cd_Name d\<rparr>),
      (\<lambda>m. m\<lparr>cd_ID := cd_ID d\<rparr>),
      (\<lambda>m. m\<lparr>cd_Type := apply_ColumnType (cd_Type d) (cd_Type m)\<rparr>),
      (\<lambda>m. m\<lparr>cd_Nullable := cd_Nullable d\<rparr>)]"

definition apply_ColumnDescriptor :: "ColumnDescriptor \<Rightarrow> ColumnDescriptor \<Rightarrow> ColumnDescriptor" where
  "apply_ColumnDescriptor d m = app_ColumnDescriptor (fold (\<lambda>u. u) (upds_ColumnDescriptor d) m) (cd_XXX_unrecognized d)"

definition valid_IndexDescriptor :: "IndexDescriptor \<Rightarrow> bool" where
  "valid_IndexDescriptor d \<longleftrightarrow>
     unknown_fields [1, 2, 3, 4, 5] (ix_XXX_unrecognized d)"

definition plain_IndexDescriptor :: "IndexDescriptor \<Rightarrow> bool" where
  "plain_IndexDescriptor d \<longleftrightarrow>
     ix_XXX_unrecognized d = []"

definition app_IndexDescriptor :: "IndexDescriptor \<Rightarrow> byte list \<Rightarrow> IndexDescriptor" where
  "app_IndexDescriptor m = (\<lambda>bs. m\<lparr>ix_XXX_unrecognized := ix_XXX_unrecognized m @ bs\<rparr>)"

definition upds_IndexDescriptor :: "IndexDescriptor \<Rightarrow> (IndexDescriptor \<Rightarrow> IndexDescriptor) list" where
  "upds_IndexDescriptor d =
     [(\<lambda>m. m\<lparr>ix_Name := ix_Name d\<rparr>),
      (\<lambda>m. m\<lparr>ix_ID := ix_ID d\<rparr>),
      (\<lambda>m. m\<lparr>ix_Unique := ix_Unique d\<rparr>)]
     @ map (\<lambda>x. \<lambda>m. m\<lparr>ix_ColumnNames := ix_ColumnNames m @ [x]\<rparr>) (ix_ColumnNames d)
     @ map (\<lambda>x. \<lambda>m. m\<lparr>ix_ColumnIDs := ix_ColumnIDs m @ [x]\<rparr>) (ix_ColumnIDs d)"

definition apply_IndexDescriptor :: "IndexDescriptor \<Rightarrow> IndexDescriptor \<Rightarrow> IndexDescriptor" where
  "apply_IndexDescriptor d m = app_IndexDescriptor (fold (\<lambda>u. u) (upds_IndexDescriptor d) m) (ix_XXX_unrecognized d)"

definition valid_PrivilegeDescriptor :: "PrivilegeDescriptor \<Rightarrow> bool" where
  "valid_PrivilegeDescriptor d \<longleftrightarrow>
     unknown_fields [1, 2] (pd_XXX_unrecognized d)"

definition plain_PrivilegeDescriptor :: "PrivilegeDescriptor \<Rightarrow> bool" where
  "plain_PrivilegeDescriptor d \<longleftrightarrow>
     pd_XXX_unrecognized d = []"

definition app_PrivilegeDescriptor :: "PrivilegeDescriptor \<Rightarrow> byte list \<Rightarrow> PrivilegeDescriptor" where
  "app_PrivilegeDescriptor m = (\<lambda>bs. m\<lparr>pd_XXX_unrecognized := pd_XXX_unrecognized m @ bs\<rparr>)"

definition upds_PrivilegeDescriptor :: "PrivilegeDescriptor \<Rightarrow> (PrivilegeDescriptor \<Rightarrow> PrivilegeDescriptor) list" where
  "upds_PrivilegeDescriptor d =
     map (\<lambda>x. \<lambda>m. m\<lparr>pd_Read := pd_Read m @ [x]\<rparr>) (pd_Read d)
     @ map (\<lambda>x. \<lambda>m. m\<lparr>pd_Write := pd_Write m @ [x]\<rparr>) (pd_Write d)"

definition apply_PrivilegeDescriptor :: "PrivilegeDescriptor \<Rightarrow> PrivilegeDescriptor \<Rightarrow> PrivilegeDescriptor" where
  "apply_PrivilegeDescriptor d m = app_PrivilegeDescriptor (fold (\<lambda>u. u) (upds_PrivilegeDescriptor d) m) (pd_XXX_unrecognized d)"

definition valid_TableDescriptor :: "TableDescriptor \<Rightarrow> bool" where
  "valid_TableDescriptor d \<longleftrightarrow>
     unknown_fields [1, 2, 3, 4, 5, 6, 7, 8] (td_XXX_unrecognized d)
     \<and> list_all valid_ColumnDescriptor (td_Columns d)
     \<and> valid_IndexDescriptor (td_PrimaryIndex d)
     \<and> list_all valid_IndexDescriptor (td_Indexes d)
     \<and> valid_PrivilegeDescriptor (td_PrivilegeDescriptor d)"

definition plain_TableDescriptor :: "TableDescriptor \<Rightarrow> bool" where
  "plain_TableDescriptor d \<longleftrightarrow>
     td_XXX_unrecognized d = []
     \<and> list_all plain_ColumnDescriptor (td_Columns d)
     \<and> plain_IndexDescriptor (td_PrimaryIndex d)
     \<and> list_all plain_IndexDescriptor (td_Indexes d)
     \<and> plain_PrivilegeDescriptor (td_PrivilegeDescriptor d)"

definition app_TableDescriptor :: "TableDescriptor \<Rightarrow> byte list \<Rightarrow> TableDescriptor" where
  "app_TableDescriptor m = (\<lambda>bs. m\<lparr>td_XXX_unrecognized := td_XXX_unrecognized m @ bs\<rparr>)"

definition upds_TableDescriptor :: "TableDescriptor \<Rightarrow> (TableDescriptor \<Rightarrow> TableDescriptor) list" where
  "upds_TableDescriptor d =
     [(\<lambda>m. m\<lparr>td_Name := td_Name d\<rparr>),
      (\<lambda>m. m\<lparr>td_ID := td_ID d\<rparr>)]
     @ map (\<lambda>x. \<lambda>m. m\<lparr>td_Columns := td_Columns m @ [apply_ColumnDescriptor (x) ColumnDescriptor_zero]\<rparr>) (td_Columns d)
     @ [(\<lambda>m. m\<lparr>td_NextColumnID := td_NextColumnID d\<rparr>),
      (\<lambda>m. m\<lparr>td_PrimaryIndex := apply_IndexDescriptor (td_PrimaryIndex d) (td_PrimaryIndex m)\<rparr>)]
     @ map (\<lambda>x. \<lambda>m. m\<lparr>td_Indexes := td_Indexes m @ [apply_IndexDescriptor (x) IndexDescriptor_zero]\<rparr>) (td_Indexes d)
     @ [(\<lambda>m. m\<lparr>td_NextIndexID := td_NextIndexID d\<rparr>),
      (\<lambda>m. m\<lparr>td_PrivilegeDescriptor := apply_PrivilegeDescriptor (td_PrivilegeDescriptor d) (td_PrivilegeDescriptor m)\<rparr>)]"

definition apply_TableDescriptor :: "TableDescriptor \<Rightarrow> TableDescriptor \<Rightarrow> TableDescriptor" where
  "apply_TableDescriptor d m = app_TableDescriptor (fold (\<lambda>u. u) (upds_TableDescriptor d) m) (td_XXX_unrecognized d)"

definition valid_DatabaseDescriptor :: "DatabaseDescriptor \<Rightarrow> bool" where
  "valid_DatabaseDescriptor d \<longleftrightarrow>
     unknown_fields [1, 2, 3] (dd_XXX_unrecognized d)
     \<and> valid_PrivilegeDescriptor (dd_PrivilegeDescriptor d)"

definition plain_DatabaseDescriptor :: "DatabaseDescriptor \<Rightarrow> bool" where
  "plain_DatabaseDescriptor d \<longleftrightarrow>
     dd_XXX_unrecognized d = []
     \<and> plain_PrivilegeDescriptor (dd_PrivilegeDescriptor d)"

definition app_DatabaseDescriptor :: "DatabaseDescriptor \<Rightarrow> byte list \<Rightarrow> DatabaseDescriptor" where
  "app_DatabaseDescriptor m = (\<lambda>bs. m\<lparr>dd_XXX_unrecognized := dd_XXX_unrecognized m @ bs\<rparr>)"

definition upds_DatabaseDescriptor :: "DatabaseDescriptor \<Rightarrow> (DatabaseDescriptor \<Rightarrow> DatabaseDescriptor) list" where
  "upds_DatabaseDescriptor d =
     [(\<lambda>m. m\<lparr>dd_Name := dd_Name d\<rparr>),
      (\<lambda>m. m\<lparr>dd_ID := dd_ID d\<rparr>),
      (\<lambda>m. m\<lparr>dd_PrivilegeDescriptor := apply_PrivilegeDescriptor (dd_PrivilegeDescriptor d) (dd_PrivilegeDescriptor m)\<rparr>)]"

definition apply_DatabaseDescriptor :: "DatabaseDescriptor \<Rightarrow> DatabaseDescriptor \<Rightarrow> DatabaseDescriptor" where
  "apply_DatabaseDescriptor d m = app_DatabaseDescriptor (fold (\<lambda>u. u) (upds_DatabaseDescriptor d) m) (dd_XXX_unrecognized d)"

lemma loop_of_ColumnType: "loop_of ColumnType_Unmarshal_loop ColumnType_field"
  unfolding loop_of_def by (intro allI, subst ColumnType_Unmarshal_loop.simps) simp

lemma ColumnType_field_tags:
  assumes "drop i data = t # rest"
  shows "t = 0x08 \<Longrightarrow> ColumnType_field data i m = field_varint data (Suc i) (\<lambda>v. m\<lparr>ct_Kind := v\<rparr>)"
    and "t = 0x10 \<Longrightarrow> ColumnType_field data i m = field_varint data (Suc i) (\<lambda>v. m\<lparr>ct_Width := v\<rparr>)"
    and "t = 0x18 \<Longrightarrow> ColumnType_field data i m = field_varint data (Suc i) (\<lambda>v. m\<lparr>ct_Precision := v\<rparr>)"
  using decode_tag [OF assms] by (simp_all add: ColumnType_field_def)

lemma ColumnType_field_other:
  assumes "decode_varint data i 0 (0 :: 64 word) = Inr (wire, j)"
    and "ucast (drop_bit 3 wire) \<notin> set ([1, 2, 3] :: 32 word list)"
  shows "ColumnType_field data i m = field_unknown data j wire m (app_ColumnType m)"
  using assms by (simp add: ColumnType_field_def app_ColumnType_def)

lemma app_ColumnType_simps:
  "app_ColumnType m [] = m" "app_ColumnType (app_ColumnType m a) b = app_ColumnType m (a @ b)"
  by (simp_all add: app_ColumnType_def)

lemma decodes_ct_Kind:
  "decodes ColumnType_field (0x08 # enc_varint (scast (x)))
     (\<lambda>m. m\<lparr>ct_Kind := x\<rparr>)"
  using decodes_field_int32 [where step = ColumnType_field and t = "0x08"
      and upd = "\<lambda>m v. m\<lparr>ct_Kind := v\<rparr>"]
  by (simp add: ColumnType_field_tags)

lemma decodes_ct_Width:
  "decodes ColumnType_field (0x10 # enc_varint (scast (x)))
     (\<lambda>m. m\<lparr>ct_Width := x\<rparr>)"
  using decodes_field_int32 [where step = ColumnType_field and t = "0x10"
      and upd = "\<lambda>m v. m\<lparr>ct_Width := v\<rparr>"]
  by (simp add: ColumnType_field_tags)

lemma decodes_ct_Precision:
  "decodes ColumnType_field (0x18 # enc_varint (scast (x)))
     (\<lambda>m. m\<lparr>ct_Precision := x\<rparr>)"
  using decodes_field_int32 [where step = ColumnType_field and t = "0x18"
      and upd = "\<lambda>m v. m\<lparr>ct_Precision := v\<rparr>"]
  by (simp add: ColumnType_field_tags)

lemma decodes_ColumnType:
  assumes "valid_ColumnType d"
  shows "list_all2 (decodes ColumnType_field) (fields_ColumnType d) (upds_ColumnType d)"
  using assms unfolding fields_ColumnType_def upds_ColumnType_def valid_ColumnType_def
  by (auto intro!: list_all2_appendI list_all2_mapI
        decodes_ct_Kind
        decodes_ct_Width
        decodes_ct_Precision
      simp: list_all_iff)

lemma ColumnType_Unmarshal_enc:
  assumes v: "valid_ColumnType d" and l: "length (enc_ColumnType d) < 2 ^ 63"
  shows "ColumnType_Unmarshal m (enc_ColumnType d) = (apply_ColumnType d m, None)"
proof -
  from v have u: "unknown_fields [1, 2, 3] (ct_XXX_unrecognized d)"
    by (simp add: valid_ColumnType_def)
  from l have l': "length (concat (fields_ColumnType d) @ ct_XXX_unrecognized d) < 2 ^ 63"
    by (simp add: enc_ColumnType_def)
  show ?thesis
    unfolding ColumnType_Unmarshal_def enc_ColumnType_def apply_ColumnType_def
    by (rule loop_fields_unknown [OF loop_of_ColumnType decodes_ColumnType [OF v]
          ColumnType_field_other app_ColumnType_simps u l'])
qed

lemma apply_ColumnType_zero:
  assumes "valid_ColumnType d"
  shows "apply_ColumnType d ColumnType_zero = d"
  using assms
  by (simp add: apply_ColumnType_def app_ColumnType_def upds_ColumnType_def valid_ColumnType_def ColumnType_zero_def
      
      list_all_iff map_idI [where f = "\<lambda>x. x", simplified] cong: map_cong)

lemma plain_valid_ColumnType:
  assumes "plain_ColumnType d"
  shows "valid_ColumnType d"
  using assms
  by (auto simp: plain_ColumnType_def valid_ColumnType_def unknown_fields.simps list_all_iff )


lemma loop_of_ColumnDescriptor: "loop_of ColumnDescriptor_Unmarshal_loop ColumnDescriptor_field"
  unfolding loop_of_def by (intro allI, subst ColumnDescriptor_Unmarshal_loop.simps) simp

lemma ColumnDescriptor_field_tags:
  assumes "drop i data = t # rest"
  shows "t = 0x0a \<Longrightarrow> ColumnDescriptor_field data i m = field_bytes data (Suc i) m (\<lambda>s. m\<lparr>cd_Name := s\<rparr>)"
    and "t = 0x10 \<Longrightarrow> ColumnDescriptor_field data i m = field_varint data (Suc i) (\<lambda>v. m\<lparr>cd_ID := v\<rparr>)"
    and "t = 0x1a \<Longrightarrow> ColumnDescriptor_field data i m = field_msg data (Suc i) m (ColumnType_Unmarshal (cd_Type m)) (\<lambda>x. m\<lparr>cd_Type := x\<rparr>)"
    and "t = 0x20 \<Longrightarrow> ColumnDescriptor_field data i m = field_bool data (Suc i) m (\<lambda>b. m\<lparr>cd_Nullable := b\<rparr>)"
  using decode_tag [OF assms] by (simp_all add: ColumnDescriptor_field_def)

lemma ColumnDescriptor_field_other:
  assumes "decode_varint data i 0 (0 :: 64 word) = Inr (wire, j)"
    and "ucast (drop_bit 3 wire) \<notin> set ([1, 2, 3, 4] :: 32 word list)"
  shows "ColumnDescriptor_field data i m = field_unknown data j wire m (app_ColumnDescriptor m)"
  using assms by (simp add: ColumnDescriptor_field_def app_ColumnDescriptor_def)

lemma app_ColumnDescriptor_simps:
  "app_ColumnDescriptor m [] = m" "app_ColumnDescriptor (app_ColumnDescriptor m a) b = app_ColumnDescriptor m (a @ b)"
  by (simp_all add: app_ColumnDescriptor_def)

lemma decodes_cd_Name:
  "decodes ColumnDescriptor_field (enc_bytes 0x0a (x))
     (\<lambda>m. m\<lparr>cd_Name := x\<rparr>)"
  using decodes_field_bytes [where step = ColumnDescriptor_field and t = "0x0a"
      and upd = "\<lambda>m v. m\<lparr>cd_Name := v\<rparr>"]
  by (simp add: ColumnDescriptor_field_tags)

lemma decodes_cd_ID:
  "decodes ColumnDescriptor_field (0x10 # enc_varint (ucast (x)))
     (\<lambda>m. m\<lparr>cd_ID := x\<rparr>)"
  using decodes_field_ID [where step = ColumnDescriptor_field and t = "0x10"
      and upd = "\<lambda>m v. m\<lparr>cd_ID := v\<rparr>"]
  by (simp add: ColumnDescriptor_field_tags)

lemma decodes_cd_Type:
  assumes "valid_ColumnType x"
  shows "decodes ColumnDescriptor_field (enc_bytes 0x1a (enc_ColumnType (x)))
     (\<lambda>m. m\<lparr>cd_Type := apply_ColumnType (x) (cd_Type m)\<rparr>)"
  using decodes_field_msg [where step = ColumnDescriptor_field and t = "0x1a"
      and upd = "\<lambda>m v. m\<lparr>cd_Type := v\<rparr>"
      and sub = "\<lambda>m. ColumnType_Unmarshal (cd_Type m)"
      and res = "\<lambda>m. apply_ColumnType x (cd_Type m)" and bs = "enc_ColumnType x"]
    ColumnType_Unmarshal_enc [OF assms]
  by (simp add: ColumnDescriptor_field_tags)

lemma decodes_cd_Nullable:
  "decodes ColumnDescriptor_field (enc_bool 0x20 (x))
     (\<lambda>m. m\<lparr>cd_Nullable := x\<rparr>)"
  using decodes_field_bool [where step = ColumnDescriptor_field and t = "0x20"
      and upd = "\<lambda>m v. m\<lparr>cd_Nullable := v\<rparr>"]
  by (simp add: ColumnDescriptor_field_tags)

lemma decodes_ColumnDescriptor:
  assumes "valid_ColumnDescriptor d"
  shows "list_all2 (decodes ColumnDescriptor_field) (fields_ColumnDescriptor d) (upds_ColumnDescriptor d)"
  using assms unfolding fields_ColumnDescriptor_def upds_ColumnDescriptor_def valid_ColumnDescriptor_def
  by (auto intro!: list_all2_appendI list_all2_mapI
        decodes_cd_Name
        decodes_cd_ID
        decodes_cd_Type
        decodes_cd_Nullable
      simp: list_all_iff)

lemma ColumnDescriptor_Unmarshal_enc:
  assumes v: "valid_ColumnDescriptor d" and l: "length (enc_ColumnDescriptor d) < 2 ^ 63"
  shows "ColumnDescriptor_Unmarshal m (enc_ColumnDescriptor d) = (apply_ColumnDescriptor d m, None)"
proof -
  from v have u: "unknown_fields [1, 2, 3, 4] (cd_XXX_unrecognized d)"
    by (simp add: valid_ColumnDescriptor_def)
  from l have l': "length (concat (fields_ColumnDescriptor d) @ cd_XXX_unrecognized d) < 2 ^ 63"
    by (simp add: enc_ColumnDescriptor_def)
  show ?thesis
    unfolding ColumnDescriptor_Unmarshal_def enc_ColumnDescriptor_def apply_ColumnDescriptor_def
    by (rule loop_fields_unknown [OF loop_of_ColumnDescriptor decodes_ColumnDescriptor [OF v]
          ColumnDescriptor_field_other app_ColumnDescriptor_simps u l'])
qed

lemma apply_ColumnDescriptor_zero:
  assumes "valid_ColumnDescriptor d"
  shows "apply_ColumnDescriptor d ColumnDescriptor_zero = d"
  using assms
  by (simp add: apply_ColumnDescriptor_def app_ColumnDescriptor_def upds_ColumnDescriptor_def valid_ColumnDescriptor_def ColumnDescriptor_zero_def
      apply_ColumnType_zero
      list_all_iff map_idI [where f = "\<lambda>x. x", simplified] cong: map_cong)

lemma plain_valid_ColumnDescriptor:
  assumes "plain_ColumnDescriptor d"
  shows "valid_ColumnDescriptor d"
  using assms
  by (auto simp: plain_ColumnDescriptor_def valid_ColumnDescriptor_def unknown_fields.simps list_all_iff plain_valid_ColumnType)


lemma loop_of_IndexDescriptor: "loop_of IndexDescriptor_Unmarshal_loop IndexDescriptor_field"
  unfolding loop_of_def by (intro allI, subst IndexDescriptor_Unmarshal_loop.simps) simp

lemma IndexDescriptor_field_tags:
  assumes "drop i data = t # rest"
  shows "t = 0x0a \<Longrightarrow> IndexDescriptor_field data i m = field_bytes data (Suc i) m (\<lambda>s. m\<lparr>ix_Name := s\<rparr>)"
    and "t = 0x10 \<Longrightarrow> IndexDescriptor_field data i m = field_varint data (Suc i) (\<lambda>v. m\<lparr>ix_ID := v\<rparr>)"
    and "t = 0x18 \<Longrightarrow> IndexDescriptor_field data i m = field_bool data (Suc i) m (\<lambda>b. m\<lparr>ix_Unique := b\<rparr>)"
    and "t = 0x22 \<Longrightarrow> IndexDescriptor_field data i m = field_bytes data (Suc i) m (\<lambda>s. m\<lparr>ix_ColumnNames := ix_ColumnNames m @ [s]\<rparr>)"
    and "t = 0x28 \<Longrightarrow> IndexDescriptor_field data i m = local_varint data (Suc i) m (\<lambda>v. m\<lparr>ix_ColumnIDs := ix_ColumnIDs m @ [v]\<rparr>)"
  using decode_tag [OF assms] by (simp_all add: IndexDescriptor_field_def)

lemma IndexDescriptor_field_other:
  assumes "decode_varint data i 0 (0 :: 64 word) = Inr (wire, j)"
    and "ucast (drop_bit 3 wire) \<notin> set ([1, 2, 3, 4, 5] :: 32 word list)"
  shows "IndexDescriptor_field data i m = field_unknown data j wire m (app_IndexDescriptor m)"
  using assms by (simp add: IndexDescriptor_field_def app_IndexDescriptor_def)

lemma app_IndexDescriptor_simps:
  "app_IndexDescriptor m [] = m" "app_IndexDescriptor (app_IndexDescriptor m a) b = app_IndexDescriptor m (a @ b)"
  by (simp_all add: app_IndexDescriptor_def)

lemma decodes_ix_Name:
  "decodes IndexDescriptor_field (enc_bytes 0x0a (x))
     (\<lambda>m. m\<lparr>ix_Name := x\<rparr>)"
  using decodes_field_bytes [where step = IndexDescriptor_field and t = "0x0a"
      and upd = "\<lambda>m v. m\<lparr>ix_Name := v\<rparr>"]
  by (simp add: IndexDescriptor_field_tags)

lemma decodes_ix_ID:
  "decodes IndexDescriptor_field (0x10 # enc_varint (ucast (x)))
     (\<lambda>m. m\<lparr>ix_ID := x\<rparr>)"
  using decodes_field_ID [where step = IndexDescriptor_field and t = "0x10"
      and upd = "\<lambda>m v. m\<lparr>ix_ID := v\<rparr>"]
  by (simp add: IndexDescriptor_field_tags)

lemma decodes_ix_Unique:
  "decodes IndexDescriptor_field (enc_bool 0x18 (x))
     (\<lambda>m. m\<lparr>ix_Unique := x\<rparr>)"
  using decodes_field_bool [where step = IndexDescriptor_field and t = "0x18"
      and upd = "\<lambda>m v. m\<lparr>ix_Unique := v\<rparr>"]
  by (simp add: IndexDescriptor_field_tags)

lemma decodes_ix_ColumnNames:
  "decodes IndexDescriptor_field (enc_bytes 0x22 (x))
     (\<lambda>m. m\<lparr>ix_ColumnNames := ix_ColumnNames m @ [x]\<rparr>)"
  using decodes_field_bytes [where step = IndexDescriptor_field and t = "0x22"
      and upd = "\<lambda>m v. m\<lparr>ix_ColumnNames := ix_ColumnNames m @ [v]\<rparr>"]
  by (simp add: IndexDescriptor_field_tags)

lemma decodes_ix_ColumnIDs:
  "decodes IndexDescriptor_field (0x28 # enc_varint (ucast (x)))
     (\<lambda>m. m\<lparr>ix_ColumnIDs := ix_ColumnIDs m @ [x]\<rparr>)"
  using decodes_local_ID [where step = IndexDescriptor_field and t = "0x28"
      and upd = "\<lambda>m v. m\<lparr>ix_ColumnIDs := ix_ColumnIDs m @ [v]\<rparr>"]
  by (simp add: IndexDescriptor_field_tags)

lemma decodes_IndexDescriptor:
  assumes "valid_IndexDescriptor d"
  shows "list_all2 (decodes IndexDescriptor_field) (fields_IndexDescriptor d) (upds_IndexDescriptor d)"
  using assms unfolding fields_IndexDescriptor_def upds_IndexDescriptor_def valid_IndexDescriptor_def
  by (auto intro!: list_all2_appendI list_all2_mapI
        decodes_ix_Name
        decodes_ix_ID
        decodes_ix_Unique
        decodes_ix_ColumnNames
        decodes_ix_ColumnIDs
      simp: list_all_iff)

lemma IndexDescriptor_Unmarshal_enc:
  assumes v: "valid_IndexDescriptor d" and l: "length (enc_IndexDescriptor d) < 2 ^ 63"
  shows "IndexDescriptor_Unmarshal m (enc_IndexDescriptor d) = (apply_IndexDescriptor d m, None)"
proof -
  from v have u: "unknown_fields [1, 2, 3, 4, 5] (ix_XXX_unrecognized d)"
    by (simp add: valid_IndexDescriptor_def)
  from l have l': "length (concat (fields_IndexDescriptor d) @ ix_XXX_unrecognized d) < 2 ^ 63"
    by (simp add: enc_IndexDescriptor_def)
  show ?thesis
    unfolding IndexDescriptor_Unmarshal_def enc_IndexDescriptor_def apply_IndexDescriptor_def
    by (rule loop_fields_unknown [OF loop_of_IndexDescriptor decodes_IndexDescriptor [OF v]
          IndexDescriptor_field_other app_IndexDescriptor_simps u l'])
qed

lemma fold_ix_ColumnNames:
  "fold (\<lambda>u. u) (map (\<lambda>x m. m\<lparr>ix_ColumnNames := ix_ColumnNames m @ [g x]\<rparr>) xs) m
     = m\<lparr>ix_ColumnNames := ix_ColumnNames m @ map g xs\<rparr>"
  by (induction xs arbitrary: m) simp_all

lemma fold_ix_ColumnIDs:
  "fold (\<lambda>u. u) (map (\<lambda>x m. m\<lparr>ix_ColumnIDs := ix_ColumnIDs m @ [g x]\<rparr>) xs) m
     = m\<lparr>ix_ColumnIDs := ix_ColumnIDs m @ map g xs\<rparr>"
  by (induction xs arbitrary: m) simp_all

lemma apply_IndexDescriptor_zero:
  assumes "valid_IndexDescriptor d"
  shows "apply_IndexDescriptor d IndexDescriptor_zero = d"
  using assms
  by (simp add: apply_IndexDescriptor_def app_IndexDescriptor_def upds_IndexDescriptor_def valid_IndexDescriptor_def IndexDescriptor_zero_def
      fold_ix_ColumnNames fold_ix_ColumnIDs
      list_all_iff map_idI [where f = "\<lambda>x. x", simplified] cong: map_cong)

lemma plain_valid_IndexDescriptor:
  assumes "plain_IndexDescriptor d"
  shows "valid_IndexDescriptor d"
  using assms
  by (auto simp: plain_IndexDescriptor_def valid_IndexDescriptor_def unknown_fields.simps list_all_iff )


lemma loop_of_PrivilegeDescriptor: "loop_of PrivilegeDescriptor_Unmarshal_loop PrivilegeDescriptor_field"
  unfolding loop_of_def by (intro allI, subst PrivilegeDescriptor_Unmarshal_loop.simps) simp

lemma PrivilegeDescriptor_field_tags:
  assumes "drop i data = t # rest"
  shows "t = 0x0a \<Longrightarrow> PrivilegeDescriptor_field data i m = field_bytes data (Suc i) m (\<lambda>s. m\<lparr>pd_Read := pd_Read m @ [s]\<rparr>)"
    and "t = 0x12 \<Longrightarrow> PrivilegeDescriptor_field data i m = field_bytes data (Suc i) m (\<lambda>s. m\<lparr>pd_Write := pd_Write m @ [s]\<rparr>)"
  using decode_tag [OF assms] by (simp_all add: PrivilegeDescriptor_field_def)

lemma PrivilegeDescriptor_field_other:
  assumes "decode_varint data i 0 (0 :: 64 word) = Inr (wire, j)"
    and "ucast (drop_bit 3 wire) \<notin> set ([1, 2] :: 32 word list)"
  shows "PrivilegeDescriptor_field data i m = field_unknown data j wire m (app_PrivilegeDescriptor m)"
  using assms by (simp add: PrivilegeDescriptor_field_def app_PrivilegeDescriptor_def)

lemma app_PrivilegeDescriptor_simps:
  "app_PrivilegeDescriptor m [] = m" "app_PrivilegeDescriptor (app_PrivilegeDescriptor m a) b = app_PrivilegeDescriptor m (a @ b)"
  by (simp_all add: app_PrivilegeDescriptor_def)

lemma decodes_pd_Read:
  "decodes PrivilegeDescriptor_field (enc_bytes 0x0a (x))
     (\<lambda>m. m\<lparr>pd_Read := pd_Read m @ [x]\<rparr>)"
  using decodes_field_bytes [where step = PrivilegeDescriptor_field and t = "0x0a"
      and upd = "\<lambda>m v. m\<lparr>pd_Read := pd_Read m @ [v]\<rparr>"]
  by (simp add: PrivilegeDescriptor_field_tags)

lemma decodes_pd_Write:
  "decodes PrivilegeDescriptor_field (enc_bytes 0x12 (x))
     (\<lambda>m. m\<lparr>pd_Write := pd_Write m @ [x]\<rparr>)"
  using decodes_field_bytes [where step = PrivilegeDescriptor_field and t = "0x12"
      and upd = "\<lambda>m v. m\<lparr>pd_Write := pd_Write m @ [v]\<rparr>"]
  by (simp add: PrivilegeDescriptor_field_tags)

lemma decodes_PrivilegeDescriptor:
  assumes "valid_PrivilegeDescriptor d"
  shows "list_all2 (decodes PrivilegeDescriptor_field) (fields_PrivilegeDescriptor d) (upds_PrivilegeDescriptor d)"
  using assms unfolding fields_PrivilegeDescriptor_def upds_PrivilegeDescriptor_def valid_PrivilegeDescriptor_def
  by (auto intro!: list_all2_appendI list_all2_mapI
        decodes_pd_Read
        decodes_pd_Write
      simp: list_all_iff)

lemma PrivilegeDescriptor_Unmarshal_enc:
  assumes v: "valid_PrivilegeDescriptor d" and l: "length (enc_PrivilegeDescriptor d) < 2 ^ 63"
  shows "PrivilegeDescriptor_Unmarshal m (enc_PrivilegeDescriptor d) = (apply_PrivilegeDescriptor d m, None)"
proof -
  from v have u: "unknown_fields [1, 2] (pd_XXX_unrecognized d)"
    by (simp add: valid_PrivilegeDescriptor_def)
  from l have l': "length (concat (fields_PrivilegeDescriptor d) @ pd_XXX_unrecognized d) < 2 ^ 63"
    by (simp add: enc_PrivilegeDescriptor_def)
  show ?thesis
    unfolding PrivilegeDescriptor_Unmarshal_def enc_PrivilegeDescriptor_def apply_PrivilegeDescriptor_def
    by (rule loop_fields_unknown [OF loop_of_PrivilegeDescriptor decodes_PrivilegeDescriptor [OF v]
          PrivilegeDescriptor_field_other app_PrivilegeDescriptor_simps u l'])
qed

lemma fold_pd_Read:
  "fold (\<lambda>u. u) (map (\<lambda>x m. m\<lparr>pd_Read := pd_Read m @ [g x]\<rparr>) xs) m
     = m\<lparr>pd_Read := pd_Read m @ map g xs\<rparr>"
  by (induction xs arbitrary: m) simp_all

lemma fold_pd_Write:
  "fold (\<lambda>u. u) (map (\<lambda>x m. m\<lparr>pd_Write := pd_Write m @ [g x]\<rparr>) xs) m
     = m\<lparr>pd_Write := pd_Write m @ map g xs\<rparr>"
  by (induction xs arbitrary: m) simp_all

lemma apply_PrivilegeDescriptor_zero:
  assumes "valid_PrivilegeDescriptor d"
  shows "apply_PrivilegeDescriptor d PrivilegeDescriptor_zero = d"
  using assms
  by (simp add: apply_PrivilegeDescriptor_def app_PrivilegeDescriptor_def upds_PrivilegeDescriptor_def valid_PrivilegeDescriptor_def PrivilegeDescriptor_zero_def
      fold_pd_Read fold_pd_Write
      list_all_iff map_idI [where f = "\<lambda>x. x", simplified] cong: map_cong)

lemma plain_valid_PrivilegeDescriptor:
  assumes "plain_PrivilegeDescriptor d"
  shows "valid_PrivilegeDescriptor d"
  using assms
  by (auto simp: plain_PrivilegeDescriptor_def valid_PrivilegeDescriptor_def unknown_fields.simps list_all_iff )


lemma loop_of_TableDescriptor: "loop_of TableDescriptor_Unmarshal_loop TableDescriptor_field"
  unfolding loop_of_def by (intro allI, subst TableDescriptor_Unmarshal_loop.simps) simp

lemma TableDescriptor_field_tags:
  assumes "drop i data = t # rest"
  shows "t = 0x0a \<Longrightarrow> TableDescriptor_field data i m = field_bytes data (Suc i) m (\<lambda>s. m\<lparr>td_Name := s\<rparr>)"
    and "t = 0x10 \<Longrightarrow> TableDescriptor_field data i m = field_varint data (Suc i) (\<lambda>v. m\<lparr>td_ID := v\<rparr>)"
    and "t = 0x1a \<Longrightarrow> TableDescriptor_field data i m = field_msg data (Suc i) m (ColumnDescriptor_Unmarshal ColumnDescriptor_zero) (\<lambda>x. m\<lparr>td_Columns := td_Columns m @ [x]\<rparr>)"
    and "t = 0x20 \<Longrightarrow> TableDescriptor_field data i m = field_varint data (Suc i) (\<lambda>v. m\<lparr>td_NextColumnID := v\<rparr>)"
    and "t = 0x2a \<Longrightarrow> TableDescriptor_field data i m = field_msg data (Suc i) m (IndexDescriptor_Unmarshal (td_PrimaryIndex m)) (\<lambda>x. m\<lparr>td_PrimaryIndex := x\<rparr>)"
    and "t = 0x32 \<Longrightarrow> TableDescriptor_field data i m = field_msg data (Suc i) m (IndexDescriptor_Unmarshal IndexDescriptor_zero) (\<lambda>x. m\<lparr>td_Indexes := td_Indexes m @ [x]\<rparr>)"
    and "t = 0x38 \<Longrightarrow> TableDescriptor_field data i m = field_varint data (Suc i) (\<lambda>v. m\<lparr>td_NextIndexID := v\<rparr>)"
    and "t = 0x42 \<Longrightarrow> TableDescriptor_field data i m = field_msg data (Suc i) m (PrivilegeDescriptor_Unmarshal (td_PrivilegeDescriptor m)) (\<lambda>x. m\<lparr>td_PrivilegeDescriptor := x\<rparr>)"
  using decode_tag [OF assms] by (simp_all add: TableDescriptor_field_def)

lemma TableDescriptor_field_other:
  assumes "decode_varint data i 0 (0 :: 64 word) = Inr (wire, j)"
    and "ucast (drop_bit 3 wire) \<notin> set ([1, 2, 3, 4, 5, 6, 7, 8] :: 32 word list)"
  shows "TableDescriptor_field data i m = field_unknown data j wire m (app_TableDescriptor m)"
  using assms by (simp add: TableDescriptor_field_def app_TableDescriptor_def)

lemma app_TableDescriptor_simps:
  "app_TableDescriptor m [] = m" "app_TableDescriptor (app_TableDescriptor m a) b = app_TableDescriptor m (a @ b)"
  by (simp_all add: app_TableDescriptor_def)

lemma decodes_td_Name:
  "decodes TableDescriptor_field (enc_bytes 0x0a (x))
     (\<lambda>m. m\<lparr>td_Name := x\<rparr>)"
  using decodes_field_bytes [where step = TableDescriptor_field and t = "0x0a"
      and upd = "\<lambda>m v. m\<lparr>td_Name := v\<rparr>"]
  by (simp add: TableDescriptor_field_tags)

lemma decodes_td_ID:
  "decodes TableDescriptor_field (0x10 # enc_varint (ucast (x)))
     (\<lambda>m. m\<lparr>td_ID := x\<rparr>)"
  using decodes_field_ID [where step = TableDescriptor_field and t = "0x10"
      and upd = "\<lambda>m v. m\<lparr>td_ID := v\<rparr>"]
  by (simp add: TableDescriptor_field_tags)

lemma decodes_td_Columns:
  assumes "valid_ColumnDescriptor x"
  shows "decodes TableDescriptor_field (enc_bytes 0x1a (enc_ColumnDescriptor (x)))
     (\<lambda>m. m\<lparr>td_Columns := td_Columns m @ [apply_ColumnDescriptor (x) ColumnDescriptor_zero]\<rparr>)"
  using decodes_field_msg [where step = TableDescriptor_field and t = "0x1a"
      and upd = "\<lambda>m v. m\<lparr>td_Columns := td_Columns m @ [v]\<rparr>"
      and sub = "\<lambda>m. ColumnDescriptor_Unmarshal ColumnDescriptor_zero"
      and res = "\<lambda>m. apply_ColumnDescriptor x ColumnDescriptor_zero" and bs = "enc_ColumnDescriptor x"]
    ColumnDescriptor_Unmarshal_enc [OF assms]
  by (simp add: TableDescriptor_field_tags)

lemma decodes_td_NextColumnID:
  "decodes TableDescriptor_field (0x20 # enc_varint (ucast (x)))
     (\<lambda>m. m\<lparr>td_NextColumnID := x\<rparr>)"
  using decodes_field_ID [where step = TableDescriptor_field and t = "0x20"
      and upd = "\<lambda>m v. m\<lparr>td_NextColumnID := v\<rparr>"]
  by (simp add: TableDescriptor_field_tags)

lemma decodes_td_PrimaryIndex:
  assumes "valid_IndexDescriptor x"
  shows "decodes TableDescriptor_field (enc_bytes 0x2a (enc_IndexDescriptor (x)))
     (\<lambda>m. m\<lparr>td_PrimaryIndex := apply_IndexDescriptor (x) (td_PrimaryIndex m)\<rparr>)"
  using decodes_field_msg [where step = TableDescriptor_field and t = "0x2a"
      and upd = "\<lambda>m v. m\<lparr>td_PrimaryIndex := v\<rparr>"
      and sub = "\<lambda>m. IndexDescriptor_Unmarshal (td_PrimaryIndex m)"
      and res = "\<lambda>m. apply_IndexDescriptor x (td_PrimaryIndex m)" and bs = "enc_IndexDescriptor x"]
    IndexDescriptor_Unmarshal_enc [OF assms]
  by (simp add: TableDescriptor_field_tags)

lemma decodes_td_Indexes:
  assumes "valid_IndexDescriptor x"
  shows "decodes TableDescriptor_field (enc_bytes 0x32 (enc_IndexDescriptor (x)))
     (\<lambda>m. m\<lparr>td_Indexes := td_Indexes m @ [apply_IndexDescriptor (x) IndexDescriptor_zero]\<rparr>)"
  using decodes_field_msg [where step = TableDescriptor_field and t = "0x32"
      and upd = "\<lambda>m v. m\<lparr>td_Indexes := td_Indexes m @ [v]\<rparr>"
      and sub = "\<lambda>m. IndexDescriptor_Unmarshal IndexDescriptor_zero"
      and res = "\<lambda>m. apply_IndexDescriptor x IndexDescriptor_zero" and bs = "enc_IndexDescriptor x"]
    IndexDescriptor_Unmarshal_enc [OF assms]
  by (simp add: TableDescriptor_field_tags)

lemma decodes_td_NextIndexID:
  "decodes TableDescriptor_field (0x38 # enc_varint (ucast (x)))
     (\<lambda>m. m\<lparr>td_NextIndexID := x\<rparr>)"
  using decodes_field_ID [where step = TableDescriptor_field and t = "0x38"
      and upd = "\<lambda>m v. m\<lparr>td_NextIndexID := v\<rparr>"]
  by (simp add: TableDescriptor_field_tags)

lemma decodes_td_PrivilegeDescriptor:
  assumes "valid_PrivilegeDescriptor x"
  shows "decodes TableDescriptor_field (enc_bytes 0x42 (enc_PrivilegeDescriptor (x)))
     (\<lambda>m. m\<lparr>td_PrivilegeDescriptor := apply_PrivilegeDescriptor (x) (td_PrivilegeDescriptor m)\<rparr>)"
  using decodes_field_msg [where step = TableDescriptor_field and t = "0x42"
      and upd = "\<lambda>m v. m\<lparr>td_PrivilegeDescriptor := v\<rparr>"
      and sub = "\<lambda>m. PrivilegeDescriptor_Unmarshal (td_PrivilegeDescriptor m)"
      and res = "\<lambda>m. apply_PrivilegeDescriptor x (td_PrivilegeDescriptor m)" and bs = "enc_PrivilegeDescriptor x"]
    PrivilegeDescriptor_Unmarshal_enc [OF assms]
  by (simp add: TableDescriptor_field_tags)

lemma decodes_TableDescriptor:
  assumes "valid_TableDescriptor d"
  shows "list_all2 (decodes TableDescriptor_field) (fields_TableDescriptor d) (upds_TableDescriptor d)"
  using assms unfolding fields_TableDescriptor_def upds_TableDescriptor_def valid_TableDescriptor_def
  by (auto intro!: list_all2_appendI list_all2_mapI
        decodes_td_Name
        decodes_td_ID
        decodes_td_Columns
        decodes_td_NextColumnID
        decodes_td_PrimaryIndex
        decodes_td_Indexes
        decodes_td_NextIndexID
        decodes_td_PrivilegeDescriptor
      simp: list_all_iff)

lemma TableDescriptor_Unmarshal_enc:
  assumes v: "valid_TableDescriptor d" and l: "length (enc_TableDescriptor d) < 2 ^ 63"
  shows "TableDescriptor_Unmarshal m (enc_TableDescriptor d) = (apply_TableDescriptor d m, None)"
proof -
  from v have u: "unknown_fields [1, 2, 3, 4, 5, 6, 7, 8] (td_XXX_unrecognized d)"
    by (simp add: valid_TableDescriptor_def)
  from l have l': "length (concat (fields_TableDescriptor d) @ td_XXX_unrecognized d) < 2 ^ 63"
    by (simp add: enc_TableDescriptor_def)
  show ?thesis
    unfolding TableDescriptor_Unmarshal_def enc_TableDescriptor_def apply_TableDescriptor_def
    by (rule loop_fields_unknown [OF loop_of_TableDescriptor decodes_TableDescriptor [OF v]
          TableDescriptor_field_other app_TableDescriptor_simps u l'])
qed

lemma fold_td_Columns:
  "fold (\<lambda>u. u) (map (\<lambda>x m. m\<lparr>td_Columns := td_Columns m @ [g x]\<rparr>) xs) m
     = m\<lparr>td_Columns := td_Columns m @ map g xs\<rparr>"
  by (induction xs arbitrary: m) simp_all

lemma fold_td_Indexes:
  "fold (\<lambda>u. u) (map (\<lambda>x m. m\<lparr>td_Indexes := td_Indexes m @ [g x]\<rparr>) xs) m
     = m\<lparr>td_Indexes := td_Indexes m @ map g xs\<rparr>"
  by (induction xs arbitrary: m) simp_all

lemma apply_TableDescriptor_zero:
  assumes "valid_TableDescriptor d"
  shows "apply_TableDescriptor d TableDescriptor_zero = d"
  using assms
  by (simp add: apply_TableDescriptor_def app_TableDescriptor_def upds_TableDescriptor_def valid_TableDescriptor_def TableDescriptor_zero_def
      fold_td_Columns fold_td_Indexes apply_ColumnDescriptor_zero apply_IndexDescriptor_zero apply_PrivilegeDescriptor_zero
      list_all_iff map_idI [where f = "\<lambda>x. x", simplified] cong: map_cong)

lemma plain_valid_TableDescriptor:
  assumes "plain_TableDescriptor d"
  shows "valid_TableDescriptor d"
  using assms
  by (auto simp: plain_TableDescriptor_def valid_TableDescriptor_def unknown_fields.simps list_all_iff plain_valid_ColumnDescriptor plain_valid_IndexDescriptor plain_valid_PrivilegeDescriptor)


lemma loop_of_DatabaseDescriptor: "loop_of DatabaseDescriptor_Unmarshal_loop DatabaseDescriptor_field"
  unfolding loop_of_def by (intro allI, subst DatabaseDescriptor_Unmarshal_loop.simps) simp

lemma DatabaseDescriptor_field_tags:
  assumes "drop i data = t # rest"
  shows "t = 0x0a \<Longrightarrow> DatabaseDescriptor_field data i m = field_bytes data (Suc i) m (\<lambda>s. m\<lparr>dd_Name := s\<rparr>)"
    and "t = 0x10 \<Longrightarrow> DatabaseDescriptor_field data i m = field_varint data (Suc i) (\<lambda>v. m\<lparr>dd_ID := v\<rparr>)"
    and "t = 0x1a \<Longrightarrow> DatabaseDescriptor_field data i m = field_msg data (Suc i) m (PrivilegeDescriptor_Unmarshal (dd_PrivilegeDescriptor m)) (\<lambda>x. m\<lparr>dd_PrivilegeDescriptor := x\<rparr>)"
  using decode_tag [OF assms] by (simp_all add: DatabaseDescriptor_field_def)

lemma DatabaseDescriptor_field_other:
  assumes "decode_varint data i 0 (0 :: 64 word) = Inr (wire, j)"
    and "ucast (drop_bit 3 wire) \<notin> set ([1, 2, 3] :: 32 word list)"
  shows "DatabaseDescriptor_field data i m = field_unknown data j wire m (app_DatabaseDescriptor m)"
  using assms by (simp add: DatabaseDescriptor_field_def app_DatabaseDescriptor_def)

lemma app_DatabaseDescriptor_simps:
  "app_DatabaseDescriptor m [] = m" "app_DatabaseDescriptor (app_DatabaseDescriptor m a) b = app_DatabaseDescriptor m (a @ b)"
  by (simp_all add: app_DatabaseDescriptor_def)

lemma decodes_dd_Name:
  "decodes DatabaseDescriptor_field (enc_bytes 0x0a (x))
     (\<lambda>m. m\<lparr>dd_Name := x\<rparr>)"
  using decodes_field_bytes [where step = DatabaseDescriptor_field and t = "0x0a"
      and upd = "\<lambda>m v. m\<lparr>dd_Name := v\<rparr>"]
  by (simp add: DatabaseDescriptor_field_tags)

lemma decodes_dd_ID:
  "decodes DatabaseDescriptor_field (0x10 # enc_varint (ucast (x)))
     (\<lambda>m. m\<lparr>dd_ID := x\<rparr>)"
  using decodes_field_ID [where step = DatabaseDescriptor_field and t = "0x10"
      and upd = "\<lambda>m v. m\<lparr>dd_ID := v\<rparr>"]
  by (simp add: DatabaseDescriptor_field_tags)

lemma decodes_dd_PrivilegeDescriptor:
  assumes "valid_PrivilegeDescriptor x"
  shows "decodes DatabaseDescriptor_field (enc_bytes 0x1a (enc_PrivilegeDescriptor (x)))
     (\<lambda>m. m\<lparr>dd_PrivilegeDescriptor := apply_PrivilegeDescriptor (x) (dd_PrivilegeDescriptor m)\<rparr>)"
  using decodes_field_msg [where step = DatabaseDescriptor_field and t = "0x1a"
      and upd = "\<lambda>m v. m\<lparr>dd_PrivilegeDescriptor := v\<rparr>"
      and sub = "\<lambda>m. PrivilegeDescriptor_Unmarshal (dd_PrivilegeDescriptor m)"
      and res = "\<lambda>m. apply_PrivilegeDescriptor x (dd_PrivilegeDescriptor m)" and bs = "enc_PrivilegeDescriptor x"]
    PrivilegeDescriptor_Unmarshal_enc [OF assms]
  by (simp add: DatabaseDescriptor_field_tags)

lemma decodes_DatabaseDescriptor:
  assumes "valid_DatabaseDescriptor d"
  shows "list_all2 (decodes DatabaseDescriptor_field) (fields_DatabaseDescriptor d) (upds_DatabaseDescriptor d)"
  using assms unfolding fields_DatabaseDescriptor_def upds_DatabaseDescriptor_def valid_DatabaseDescriptor_def
  by (auto intro!: list_all2_appendI list_all2_mapI
        decodes_dd_Name
        decodes_dd_ID
        decodes_dd_PrivilegeDescriptor
      simp: list_all_iff)

lemma DatabaseDescriptor_Unmarshal_enc:
  assumes v: "valid_DatabaseDescriptor d" and l: "length (enc_DatabaseDescriptor d) < 2 ^ 63"
  shows "DatabaseDescriptor_Unmarshal m (enc_DatabaseDescriptor d) = (apply_DatabaseDescriptor d m, None)"
proof -
  from v have u: "unknown_fields [1, 2, 3] (dd_XXX_unrecognized d)"
    by (simp add: valid_DatabaseDescriptor_def)
  from l have l': "length (concat (fields_DatabaseDescriptor d) @ dd_XXX_unrecognized d) < 2 ^ 63"
    by (simp add: enc_DatabaseDescriptor_def)
  show ?thesis
    unfolding DatabaseDescriptor_Unmarshal_def enc_DatabaseDescriptor_def apply_DatabaseDescriptor_def
    by (rule loop_fields_unknown [OF loop_of_DatabaseDescriptor decodes_DatabaseDescriptor [OF v]
          DatabaseDescriptor_field_other app_DatabaseDescriptor_simps u l'])
qed

lemma apply_DatabaseDescriptor_zero:
  assumes "valid_DatabaseDescriptor d"
  shows "apply_DatabaseDescriptor d DatabaseDescriptor_zero = d"
  using assms
  by (simp add: apply_DatabaseDescriptor_def app_DatabaseDescriptor_def upds_DatabaseDescriptor_def valid_DatabaseDescriptor_def DatabaseDescriptor_zero_def
      apply_PrivilegeDescriptor_zero
      list_all_iff map_idI [where f = "\<lambda>x. x", simplified] cong: map_cong)

lemma plain_valid_DatabaseDescriptor:
  assumes "plain_DatabaseDescriptor d"
  shows "valid_DatabaseDescriptor d"
  using assms
  by (auto simp: plain_DatabaseDescriptor_def valid_DatabaseDescriptor_def unknown_fields.simps list_all_iff plain_valid_PrivilegeDescriptor)



section \<open>Round trip\<close>

text \<open>The descriptors of the spec's end-to-end scenario: the table \<^verbatim>\<open>items\<close> with the
  columns \<^verbatim>\<open>a\<close> and \<^verbatim>\<open>b\<close> of kind INT, its primary index, and the privileges of \<^verbatim>\<open>root\<close>;
  and a database \<^verbatim>\<open>d\<close>. Names are given by their bytes.\<close>

definition example_type :: ColumnType where
  "example_type = \<lparr>ct_Kind = 1, ct_Width = 0, ct_Precision = 0, ct_XXX_unrecognized = []\<rparr>"

definition example_column_a :: ColumnDescriptor where
  "example_column_a =
     \<lparr>cd_Name = [0x61], cd_ID = 1, cd_Type = example_type, cd_Nullable = False,
      cd_XXX_unrecognized = []\<rparr>"

definition example_column_b :: ColumnDescriptor where
  "example_column_b =
     \<lparr>cd_Name = [0x62], cd_ID = 2, cd_Type = example_type, cd_Nullable = False,
      cd_XXX_unrecognized = []\<rparr>"

definition example_index :: IndexDescriptor where
  "example_index =
     \<lparr>ix_Name = [0x70, 0x72, 0x69, 0x6d, 0x61, 0x72, 0x79], ix_ID = 1, ix_Unique = True,
      ix_ColumnNames = [[0x61], [0x62]], ix_ColumnIDs = [1, 2], ix_XXX_unrecognized = []\<rparr>"

definition example_privileges :: PrivilegeDescriptor where
  "example_privileges =
     \<lparr>pd_Read = [[0x72, 0x6f, 0x6f, 0x74]], pd_Write = [[0x72, 0x6f, 0x6f, 0x74]],
      pd_XXX_unrecognized = []\<rparr>"

definition example_table :: TableDescriptor where
  "example_table =
     \<lparr>td_Name = [0x69, 0x74, 0x65, 0x6d, 0x73], td_ID = 53,
      td_Columns = [example_column_a, example_column_b], td_NextColumnID = 3,
      td_PrimaryIndex = example_index, td_Indexes = [], td_NextIndexID = 2,
      td_PrivilegeDescriptor = example_privileges, td_XXX_unrecognized = []\<rparr>"

definition example_database :: DatabaseDescriptor where
  "example_database =
     \<lparr>dd_Name = [0x64], dd_ID = 50, dd_PrivilegeDescriptor = example_privileges,
      dd_XXX_unrecognized = []\<rparr>"

lemmas example_defs = example_type_def example_column_a_def example_column_b_def
  example_index_def example_privileges_def example_table_def example_database_def

text \<open>The same table as a newer schema would write it, with a field 99 of wire type 0 and
  value 5 that \<^verbatim>\<open>TableDescriptor\<close> does not know: the bytes \<^verbatim>\<open>98 06 05\<close>.\<close>

definition example_table_99 :: TableDescriptor where
  "example_table_99 = example_table\<lparr>td_XXX_unrecognized := [0x98, 0x06, 0x05]\<rparr>"

lemmas plain_defs = plain_ColumnType_def plain_ColumnDescriptor_def plain_IndexDescriptor_def
  plain_PrivilegeDescriptor_def plain_TableDescriptor_def plain_DatabaseDescriptor_def

lemma example_plain:
  "plain_ColumnType example_type" "plain_ColumnDescriptor example_column_a"
  "plain_IndexDescriptor example_index" "plain_PrivilegeDescriptor example_privileges"
  "plain_TableDescriptor example_table" "plain_DatabaseDescriptor example_database"
  by (simp_all add: plain_defs example_defs)

lemma example_valid:
  "valid_ColumnType example_type" "valid_ColumnDescriptor example_column_a"
  "valid_IndexDescriptor example_index" "valid_PrivilegeDescriptor example_privileges"
  "valid_TableDescriptor example_table" "valid_DatabaseDescriptor example_database"
  by (simp_all add: example_plain plain_valid_ColumnType plain_valid_ColumnDescriptor
      plain_valid_IndexDescriptor plain_valid_PrivilegeDescriptor plain_valid_TableDescriptor
      plain_valid_DatabaseDescriptor)

lemma example_Size:
  "ColumnType_Size example_type = 6" "ColumnDescriptor_Size example_column_a = 15"
  "IndexDescriptor_Size example_index = 23" "PrivilegeDescriptor_Size example_privileges = 12"
  "TableDescriptor_Size example_table = 86" "DatabaseDescriptor_Size example_database = 19"
  by code_simp+

lemma example_Marshal:
  "ColumnType_Marshal example_type
     = Inr [8, 1, 16, 0, 24, 0]"
  "ColumnDescriptor_Marshal example_column_a
     = Inr [10, 1, 97, 16, 1, 26, 6, 8, 1, 16, 0, 24, 0, 32, 0]"
  "IndexDescriptor_Marshal example_index
     = Inr [10, 7, 112, 114, 105, 109, 97, 114, 121, 16, 1, 24, 1, 34, 1, 97, 34, 1, 98,
            40, 1, 40, 2]"
  "PrivilegeDescriptor_Marshal example_privileges
     = Inr [10, 4, 114, 111, 111, 116, 18, 4, 114, 111, 111, 116]"
  "TableDescriptor_Marshal example_table
     = Inr [10, 5, 105, 116, 101, 109, 115, 16, 53, 26, 15, 10, 1, 97, 16, 1, 26, 6, 8, 1,
            16, 0, 24, 0, 32, 0, 26, 15, 10, 1, 98, 16, 2, 26, 6, 8, 1, 16, 0, 24, 0, 32,
            0, 32, 3, 42, 23, 10, 7, 112, 114, 105, 109, 97, 114, 121, 16, 1, 24, 1, 34, 1,
            97, 34, 1, 98, 40, 1, 40, 2, 56, 2, 66, 12, 10, 4, 114, 111, 111, 116, 18, 4,
            114, 111, 111, 116]"
  "DatabaseDescriptor_Marshal example_database
     = Inr [10, 1, 100, 16, 50, 26, 12, 10, 4, 114, 111, 111, 116, 18, 4, 114, 111, 111,
            116]"
  by code_simp+

lemma example_table_99_valid: "valid_TableDescriptor example_table_99"
proof -
  have "unknown_fields [1, 2, 3, 4, 5, 6, 7, 8] [0x98, 0x06, 0x05]"
    by code_simp
  with example_valid(5) show ?thesis
    by (simp add: valid_TableDescriptor_def example_table_99_def)
qed

lemma example_table_99_Size: "TableDescriptor_Size example_table_99 = 89"
  by code_simp

lemma example_table_99_Marshal:
  "TableDescriptor_Marshal example_table_99
     = Inr [10, 5, 105, 116, 101, 109, 115, 16, 53, 26, 15, 10, 1, 97, 16, 1, 26, 6, 8, 1,
            16, 0, 24, 0, 32, 0, 26, 15, 10, 1, 98, 16, 2, 26, 6, 8, 1, 16, 0, 24, 0, 32,
            0, 32, 3, 42, 23, 10, 7, 112, 114, 105, 109, 97, 114, 121, 16, 1, 24, 1, 34, 1,
            97, 34, 1, 98, 40, 1, 40, 2, 56, 2, 66, 12, 10, 4, 114, 111, 111, 116, 18, 4,
            114, 111, 111, 116, 152, 6, 5]"
  by code_simp

lemma ColumnType_roundtrip:
  assumes "valid_ColumnType d" and "ColumnType_Size d < 2 ^ 63"
  shows "\<exists>bs. ColumnType_Marshal d = Inr bs
     \<and> ColumnType_Unmarshal ColumnType_zero bs = (d, None)"
  using ColumnType_Marshal_enc [of d] ColumnType_Unmarshal_enc [OF assms(1), of ColumnType_zero]
    assms(2) apply_ColumnType_zero [OF assms(1)]
  by (simp add: length_enc_ColumnType)

lemma ColumnDescriptor_roundtrip:
  assumes "valid_ColumnDescriptor d" and "ColumnDescriptor_Size d < 2 ^ 63"
  shows "\<exists>bs. ColumnDescriptor_Marshal d = Inr bs
     \<and> ColumnDescriptor_Unmarshal ColumnDescriptor_zero bs = (d, None)"
  using ColumnDescriptor_Marshal_enc [of d] ColumnDescriptor_Unmarshal_enc [OF assms(1), of ColumnDescriptor_zero]
    assms(2) apply_ColumnDescriptor_zero [OF assms(1)]
  by (simp add: length_enc_ColumnDescriptor)

lemma IndexDescriptor_roundtrip:
  assumes "valid_IndexDescriptor d" and "IndexDescriptor_Size d < 2 ^ 63"
  shows "\<exists>bs. IndexDescriptor_Marshal d = Inr bs
     \<and> IndexDescriptor_Unmarshal IndexDescriptor_zero bs = (d, None)"
  using IndexDescriptor_Marshal_enc [of d] IndexDescriptor_Unmarshal_enc [OF assms(1), of IndexDescriptor_zero]
    assms(2) apply_IndexDescriptor_zero [OF assms(1)]
  by (simp add: length_enc_IndexDescriptor)

lemma PrivilegeDescriptor_roundtrip:
  assumes "valid_PrivilegeDescriptor d" and "PrivilegeDescriptor_Size d < 2 ^ 63"
  shows "\<exists>bs. PrivilegeDescriptor_Marshal d = Inr bs
     \<and> PrivilegeDescriptor_Unmarshal PrivilegeDescriptor_zero bs = (d, None)"
  using PrivilegeDescriptor_Marshal_enc [of d] PrivilegeDescriptor_Unmarshal_enc [OF assms(1), of PrivilegeDescriptor_zero]
    assms(2) apply_PrivilegeDescriptor_zero [OF assms(1)]
  by (simp add: length_enc_PrivilegeDescriptor)

lemma TableDescriptor_roundtrip:
  assumes "valid_TableDescriptor d" and "TableDescriptor_Size d < 2 ^ 63"
  shows "\<exists>bs. TableDescriptor_Marshal d = Inr bs
     \<and> TableDescriptor_Unmarshal TableDescriptor_zero bs = (d, None)"
  using TableDescriptor_Marshal_enc [of d] TableDescriptor_Unmarshal_enc [OF assms(1), of TableDescriptor_zero]
    assms(2) apply_TableDescriptor_zero [OF assms(1)]
  by (simp add: length_enc_TableDescriptor)

lemma DatabaseDescriptor_roundtrip:
  assumes "valid_DatabaseDescriptor d" and "DatabaseDescriptor_Size d < 2 ^ 63"
  shows "\<exists>bs. DatabaseDescriptor_Marshal d = Inr bs
     \<and> DatabaseDescriptor_Unmarshal DatabaseDescriptor_zero bs = (d, None)"
  using DatabaseDescriptor_Marshal_enc [of d] DatabaseDescriptor_Unmarshal_enc [OF assms(1), of DatabaseDescriptor_zero]
    assms(2) apply_DatabaseDescriptor_zero [OF assms(1)]
  by (simp add: length_enc_DatabaseDescriptor)

text \<open>
  The round trip of the values whose unrecognized bytes are well formed. For each of the six
  descriptor types and every value \<open>d\<close> of it with \<open>valid_T d\<close> and an encoding of fewer than
  \<open>2 ^ 63\<close> bytes (the range of an \<^verbatim>\<open>int\<close>), \<^verbatim>\<open>Marshal\<close> succeeds and \<^verbatim>\<open>Unmarshal\<close> of its bytes
  into a zero value returns nil and leaves a value equal to \<open>d\<close> in every field, zero-valued
  fields and unrecognized bytes included. A value with no unrecognized bytes is such a
  value.
\<close>

lemma roundtrip_of_valid_values:
  "(valid_ColumnType ct \<and> ColumnType_Size ct < 2 ^ 63 \<longrightarrow>
      (\<exists>bs. ColumnType_Marshal ct = Inr bs
         \<and> ColumnType_Unmarshal ColumnType_zero bs = (ct, None)))
   \<and> (valid_ColumnDescriptor cd \<and> ColumnDescriptor_Size cd < 2 ^ 63 \<longrightarrow>
      (\<exists>bs. ColumnDescriptor_Marshal cd = Inr bs
         \<and> ColumnDescriptor_Unmarshal ColumnDescriptor_zero bs = (cd, None)))
   \<and> (valid_IndexDescriptor ix \<and> IndexDescriptor_Size ix < 2 ^ 63 \<longrightarrow>
      (\<exists>bs. IndexDescriptor_Marshal ix = Inr bs
         \<and> IndexDescriptor_Unmarshal IndexDescriptor_zero bs = (ix, None)))
   \<and> (valid_PrivilegeDescriptor pd \<and> PrivilegeDescriptor_Size pd < 2 ^ 63 \<longrightarrow>
      (\<exists>bs. PrivilegeDescriptor_Marshal pd = Inr bs
         \<and> PrivilegeDescriptor_Unmarshal PrivilegeDescriptor_zero bs = (pd, None)))
   \<and> (valid_TableDescriptor td \<and> TableDescriptor_Size td < 2 ^ 63 \<longrightarrow>
      (\<exists>bs. TableDescriptor_Marshal td = Inr bs
         \<and> TableDescriptor_Unmarshal TableDescriptor_zero bs = (td, None)))
   \<and> (valid_DatabaseDescriptor dd \<and> DatabaseDescriptor_Size dd < 2 ^ 63 \<longrightarrow>
      (\<exists>bs. DatabaseDescriptor_Marshal dd = Inr bs
         \<and> DatabaseDescriptor_Unmarshal DatabaseDescriptor_zero bs = (dd, None)))"
  using ColumnType_roundtrip [of ct] ColumnDescriptor_roundtrip [of cd] IndexDescriptor_roundtrip [of ix]
    PrivilegeDescriptor_roundtrip [of pd] TableDescriptor_roundtrip [of td] DatabaseDescriptor_roundtrip [of dd]
  by blast

lemma roundtrip_of_examples:
  "ColumnType_Unmarshal ColumnType_zero
      [8, 1, 16, 0, 24, 0]
     = (example_type, None)
   \<and> ColumnDescriptor_Unmarshal ColumnDescriptor_zero
      [10, 1, 97, 16, 1, 26, 6, 8, 1, 16, 0, 24, 0, 32, 0]
     = (example_column_a, None)
   \<and> IndexDescriptor_Unmarshal IndexDescriptor_zero
      [10, 7, 112, 114, 105, 109, 97, 114, 121, 16, 1, 24, 1, 34, 1, 97, 34, 1, 98,
       40, 1, 40, 2]
     = (example_index, None)
   \<and> PrivilegeDescriptor_Unmarshal PrivilegeDescriptor_zero
      [10, 4, 114, 111, 111, 116, 18, 4, 114, 111, 111, 116]
     = (example_privileges, None)
   \<and> TableDescriptor_Unmarshal TableDescriptor_zero
      [10, 5, 105, 116, 101, 109, 115, 16, 53, 26, 15, 10, 1, 97, 16, 1, 26, 6, 8, 1,
       16, 0, 24, 0, 32, 0, 26, 15, 10, 1, 98, 16, 2, 26, 6, 8, 1, 16, 0, 24, 0, 32,
       0, 32, 3, 42, 23, 10, 7, 112, 114, 105, 109, 97, 114, 121, 16, 1, 24, 1, 34, 1,
       97, 34, 1, 98, 40, 1, 40, 2, 56, 2, 66, 12, 10, 4, 114, 111, 111, 116, 18, 4,
       114, 111, 111, 116]
     = (example_table, None)
   \<and> DatabaseDescriptor_Unmarshal DatabaseDescriptor_zero
      [10, 1, 100, 16, 50, 26, 12, 10, 4, 114, 111, 111, 116, 18, 4, 114, 111, 111,
       116]
     = (example_database, None)
   \<and> TableDescriptor_Unmarshal TableDescriptor_zero
      [10, 5, 105, 116, 101, 109, 115, 16, 53, 26, 15, 10, 1, 97, 16, 1, 26, 6, 8, 1,
       16, 0, 24, 0, 32, 0, 26, 15, 10, 1, 98, 16, 2, 26, 6, 8, 1, 16, 0, 24, 0, 32,
       0, 32, 3, 42, 23, 10, 7, 112, 114, 105, 109, 97, 114, 121, 16, 1, 24, 1, 34, 1,
       97, 34, 1, 98, 40, 1, 40, 2, 56, 2, 66, 12, 10, 4, 114, 111, 111, 116, 18, 4,
       114, 111, 111, 116, 152, 6, 5]
     = (example_table_99, None)"
  using roundtrip_of_valid_values [of example_type example_column_a example_index
      example_privileges example_table example_database]
    roundtrip_of_valid_values [of example_type example_column_a example_index
      example_privileges example_table_99 example_database]
    example_valid example_table_99_valid
  by (simp add: example_Size example_Marshal example_table_99_Size example_table_99_Marshal)

text \<open>
  Claim C1, at values where the code departs from it. A descriptor that \<^verbatim>\<open>Unmarshal\<close> itself
  returned with nil does not always come back from \<^verbatim>\<open>Unmarshal(Marshal(d))\<close>. The four bytes
  \<^verbatim>\<open>80 88 00 05\<close> are one field: the tag 1024 (field number 128, wire type 0) written in
  three bytes, and the payload 5. \<^verbatim>\<open>ColumnType.Unmarshal\<close> returns nil on them; its default
  case steps back by \<^verbatim>\<open>sizeOfWire\<close>, the two bytes that the tag needs, not by the three
  bytes it read, and keeps \<^verbatim>\<open>88 00 05\<close> as the unrecognized bytes. \<^verbatim>\<open>Marshal\<close> of that value
  writes \<^verbatim>\<open>08 00 10 00 18 00 88 00 05\<close>, and \<^verbatim>\<open>Unmarshal\<close> of these bytes takes \<^verbatim>\<open>88 00\<close> for the
  tag of field 1: it returns nil with kind 5 and no unrecognized bytes, which is not the
  value that was marshalled. In the same way the bytes \<^verbatim>\<open>80 80 81 00 05\<close> leave
  \<^verbatim>\<open>80 81 00 05\<close>, and \<^verbatim>\<open>Unmarshal\<close> of the bytes marshalled from that value returns
  \<^verbatim>\<open>io.ErrUnexpectedEOF\<close>.
\<close>

theorem roundtrip_fails_on_value_from_Unmarshal:
  "ColumnType_Unmarshal ColumnType_zero [0x80, 0x88, 0x00, 0x05]
     = (ColumnType_zero\<lparr>ct_XXX_unrecognized := [0x88, 0x00, 0x05]\<rparr>, None)
   \<and> ColumnType_Marshal (ColumnType_zero\<lparr>ct_XXX_unrecognized := [0x88, 0x00, 0x05]\<rparr>)
     = Inr [0x08, 0x00, 0x10, 0x00, 0x18, 0x00, 0x88, 0x00, 0x05]
   \<and> ColumnType_Unmarshal ColumnType_zero
       [0x08, 0x00, 0x10, 0x00, 0x18, 0x00, 0x88, 0x00, 0x05]
     = (ColumnType_zero\<lparr>ct_Kind := 5\<rparr>, None)
   \<and> ColumnType_zero\<lparr>ct_Kind := 5\<rparr>
     \<noteq> ColumnType_zero\<lparr>ct_XXX_unrecognized := [0x88, 0x00, 0x05]\<rparr>
   \<and> ColumnType_Unmarshal ColumnType_zero [0x80, 0x80, 0x81, 0x00, 0x05]
     = (ColumnType_zero\<lparr>ct_XXX_unrecognized := [0x80, 0x81, 0x00, 0x05]\<rparr>, None)
   \<and> ColumnType_Marshal (ColumnType_zero\<lparr>ct_XXX_unrecognized := [0x80, 0x81, 0x00, 0x05]\<rparr>)
     = Inr [0x08, 0x00, 0x10, 0x00, 0x18, 0x00, 0x80, 0x81, 0x00, 0x05]
   \<and> ColumnType_Unmarshal ColumnType_zero
       [0x08, 0x00, 0x10, 0x00, 0x18, 0x00, 0x80, 0x81, 0x00, 0x05]
     = (ColumnType_zero, Some ErrUnexpectedEOF)"
proof (intro conjI)
  show "ColumnType_Unmarshal ColumnType_zero [0x80, 0x88, 0x00, 0x05]
     = (ColumnType_zero\<lparr>ct_XXX_unrecognized := [0x88, 0x00, 0x05]\<rparr>, None)"
    by (simp add: eval_wire eval_Unmarshal eval_zero)
  show "ColumnType_Marshal (ColumnType_zero\<lparr>ct_XXX_unrecognized := [0x88, 0x00, 0x05]\<rparr>)
     = Inr [0x08, 0x00, 0x10, 0x00, 0x18, 0x00, 0x88, 0x00, 0x05]"
    by code_simp
  show "ColumnType_Unmarshal ColumnType_zero
       [0x08, 0x00, 0x10, 0x00, 0x18, 0x00, 0x88, 0x00, 0x05]
     = (ColumnType_zero\<lparr>ct_Kind := 5\<rparr>, None)"
    by (simp add: eval_wire eval_Unmarshal eval_zero)
  show "ColumnType_zero\<lparr>ct_Kind := 5\<rparr>
     \<noteq> ColumnType_zero\<lparr>ct_XXX_unrecognized := [0x88, 0x00, 0x05]\<rparr>"
    by (simp add: ColumnType_zero_def)
  show "ColumnType_Unmarshal ColumnType_zero [0x80, 0x80, 0x81, 0x00, 0x05]
     = (ColumnType_zero\<lparr>ct_XXX_unrecognized := [0x80, 0x81, 0x00, 0x05]\<rparr>, None)"
    by (simp add: eval_wire eval_Unmarshal eval_zero)
  show "ColumnType_Marshal (ColumnType_zero\<lparr>ct_XXX_unrecognized := [0x80, 0x81, 0x00, 0x05]\<rparr>)
     = Inr [0x08, 0x00, 0x10, 0x00, 0x18, 0x00, 0x80, 0x81, 0x00, 0x05]"
    by code_simp
  show "ColumnType_Unmarshal ColumnType_zero
       [0x08, 0x00, 0x10, 0x00, 0x18, 0x00, 0x80, 0x81, 0x00, 0x05]
     = (ColumnType_zero, Some ErrUnexpectedEOF)"
    by (simp add: eval_wire eval_Unmarshal eval_zero)
qed

section \<open>Size and Marshal agree\<close>

text \<open>
  Claim C2. For every value \<open>m\<close> of each of the six descriptor types, \<^verbatim>\<open>Size()\<close> is the length
  of the encoding \<open>enc_T m\<close>. On every buffer with room for \<^verbatim>\<open>Size()\<close> bytes, \<^verbatim>\<open>MarshalTo\<close>
  neither panics nor reports an error: it writes the bytes \<open>enc_T m\<close> at the start of the
  buffer, exactly \<^verbatim>\<open>Size()\<close> of them, leaves the bytes of the buffer behind them as they
  were, and returns the count \<^verbatim>\<open>Size()\<close>. \<^verbatim>\<open>Marshal\<close> succeeds and the byte sequence it returns
  is \<open>enc_T m\<close>, of length exactly \<^verbatim>\<open>Size()\<close>.
\<close>

theorem Marshal_writes_exactly_Size:
  "(length (enc_ColumnType ct) = ColumnType_Size ct
      \<and> (ColumnType_Size ct \<le> length buf \<longrightarrow>
           ColumnType_MarshalTo ct buf
             = Inr (enc_ColumnType ct @ drop (ColumnType_Size ct) buf, ColumnType_Size ct))
      \<and> ColumnType_Marshal ct = Inr (enc_ColumnType ct))
   \<and> (length (enc_ColumnDescriptor cd) = ColumnDescriptor_Size cd
      \<and> (ColumnDescriptor_Size cd \<le> length buf \<longrightarrow>
           ColumnDescriptor_MarshalTo cd buf
             = Inr (enc_ColumnDescriptor cd @ drop (ColumnDescriptor_Size cd) buf, ColumnDescriptor_Size cd))
      \<and> ColumnDescriptor_Marshal cd = Inr (enc_ColumnDescriptor cd))
   \<and> (length (enc_IndexDescriptor ix) = IndexDescriptor_Size ix
      \<and> (IndexDescriptor_Size ix \<le> length buf \<longrightarrow>
           IndexDescriptor_MarshalTo ix buf
             = Inr (enc_IndexDescriptor ix @ drop (IndexDescriptor_Size ix) buf, IndexDescriptor_Size ix))
      \<and> IndexDescriptor_Marshal ix = Inr (enc_IndexDescriptor ix))
   \<and> (length (enc_PrivilegeDescriptor pd) = PrivilegeDescriptor_Size pd
      \<and> (PrivilegeDescriptor_Size pd \<le> length buf \<longrightarrow>
           PrivilegeDescriptor_MarshalTo pd buf
             = Inr (enc_PrivilegeDescriptor pd @ drop (PrivilegeDescriptor_Size pd) buf, PrivilegeDescriptor_Size pd))
      \<and> PrivilegeDescriptor_Marshal pd = Inr (enc_PrivilegeDescriptor pd))
   \<and> (length (enc_TableDescriptor td) = TableDescriptor_Size td
      \<and> (TableDescriptor_Size td \<le> length buf \<longrightarrow>
           TableDescriptor_MarshalTo td buf
             = Inr (enc_TableDescriptor td @ drop (TableDescriptor_Size td) buf, TableDescriptor_Size td))
      \<and> TableDescriptor_Marshal td = Inr (enc_TableDescriptor td))
   \<and> (length (enc_DatabaseDescriptor dd) = DatabaseDescriptor_Size dd
      \<and> (DatabaseDescriptor_Size dd \<le> length buf \<longrightarrow>
           DatabaseDescriptor_MarshalTo dd buf
             = Inr (enc_DatabaseDescriptor dd @ drop (DatabaseDescriptor_Size dd) buf, DatabaseDescriptor_Size dd))
      \<and> DatabaseDescriptor_Marshal dd = Inr (enc_DatabaseDescriptor dd))"
proof (intro conjI impI)
  show "length (enc_ColumnType ct) = ColumnType_Size ct"
    by (rule length_enc_ColumnType)
  show "ColumnType_MarshalTo ct buf
      = Inr (enc_ColumnType ct @ drop (ColumnType_Size ct) buf, ColumnType_Size ct)"
    if "ColumnType_Size ct \<le> length buf"
    using ColumnType_MarshalTo_enc [of ct buf] that by (simp add: length_enc_ColumnType)
  show "ColumnType_Marshal ct = Inr (enc_ColumnType ct)"
    by (rule ColumnType_Marshal_enc)
  show "length (enc_ColumnDescriptor cd) = ColumnDescriptor_Size cd"
    by (rule length_enc_ColumnDescriptor)
  show "ColumnDescriptor_MarshalTo cd buf
      = Inr (enc_ColumnDescriptor cd @ drop (ColumnDescriptor_Size cd) buf, ColumnDescriptor_Size cd)"
    if "ColumnDescriptor_Size cd \<le> length buf"
    using ColumnDescriptor_MarshalTo_enc [of cd buf] that by (simp add: length_enc_ColumnDescriptor)
  show "ColumnDescriptor_Marshal cd = Inr (enc_ColumnDescriptor cd)"
    by (rule ColumnDescriptor_Marshal_enc)
  show "length (enc_IndexDescriptor ix) = IndexDescriptor_Size ix"
    by (rule length_enc_IndexDescriptor)
  show "IndexDescriptor_MarshalTo ix buf
      = Inr (enc_IndexDescriptor ix @ drop (IndexDescriptor_Size ix) buf, IndexDescriptor_Size ix)"
    if "IndexDescriptor_Size ix \<le> length buf"
    using IndexDescriptor_MarshalTo_enc [of ix buf] that by (simp add: length_enc_IndexDescriptor)
  show "IndexDescriptor_Marshal ix = Inr (enc_IndexDescriptor ix)"
    by (rule IndexDescriptor_Marshal_enc)
  show "length (enc_PrivilegeDescriptor pd) = PrivilegeDescriptor_Size pd"
    by (rule length_enc_PrivilegeDescriptor)
  show "PrivilegeDescriptor_MarshalTo pd buf
      = Inr (enc_PrivilegeDescriptor pd @ drop (PrivilegeDescriptor_Size pd) buf, PrivilegeDescriptor_Size pd)"
    if "PrivilegeDescriptor_Size pd \<le> length buf"
    using PrivilegeDescriptor_MarshalTo_enc [of pd buf] that by (simp add: length_enc_PrivilegeDescriptor)
  show "PrivilegeDescriptor_Marshal pd = Inr (enc_PrivilegeDescriptor pd)"
    by (rule PrivilegeDescriptor_Marshal_enc)
  show "length (enc_TableDescriptor td) = TableDescriptor_Size td"
    by (rule length_enc_TableDescriptor)
  show "TableDescriptor_MarshalTo td buf
      = Inr (enc_TableDescriptor td @ drop (TableDescriptor_Size td) buf, TableDescriptor_Size td)"
    if "TableDescriptor_Size td \<le> length buf"
    using TableDescriptor_MarshalTo_enc [of td buf] that by (simp add: length_enc_TableDescriptor)
  show "TableDescriptor_Marshal td = Inr (enc_TableDescriptor td)"
    by (rule TableDescriptor_Marshal_enc)
  show "length (enc_DatabaseDescriptor dd) = DatabaseDescriptor_Size dd"
    by (rule length_enc_DatabaseDescriptor)
  show "DatabaseDescriptor_MarshalTo dd buf
      = Inr (enc_DatabaseDescriptor dd @ drop (DatabaseDescriptor_Size dd) buf, DatabaseDescriptor_Size dd)"
    if "DatabaseDescriptor_Size dd \<le> length buf"
    using DatabaseDescriptor_MarshalTo_enc [of dd buf] that by (simp add: length_enc_DatabaseDescriptor)
  show "DatabaseDescriptor_Marshal dd = Inr (enc_DatabaseDescriptor dd)"
    by (rule DatabaseDescriptor_Marshal_enc)
qed

lemma example_enc:
  "enc_ColumnType example_type
     = [8, 1, 16, 0, 24, 0]"
  "enc_ColumnDescriptor example_column_a
     = [10, 1, 97, 16, 1, 26, 6, 8, 1, 16, 0, 24, 0, 32, 0]"
  "enc_IndexDescriptor example_index
     = [10, 7, 112, 114, 105, 109, 97, 114, 121, 16, 1, 24, 1, 34, 1, 97, 34, 1, 98,
        40, 1, 40, 2]"
  "enc_PrivilegeDescriptor example_privileges
     = [10, 4, 114, 111, 111, 116, 18, 4, 114, 111, 111, 116]"
  "enc_TableDescriptor example_table
     = [10, 5, 105, 116, 101, 109, 115, 16, 53, 26, 15, 10, 1, 97, 16, 1, 26, 6, 8, 1,
        16, 0, 24, 0, 32, 0, 26, 15, 10, 1, 98, 16, 2, 26, 6, 8, 1, 16, 0, 24, 0, 32,
        0, 32, 3, 42, 23, 10, 7, 112, 114, 105, 109, 97, 114, 121, 16, 1, 24, 1, 34, 1,
        97, 34, 1, 98, 40, 1, 40, 2, 56, 2, 66, 12, 10, 4, 114, 111, 111, 116, 18, 4,
        114, 111, 111, 116]"
  "enc_DatabaseDescriptor example_database
     = [10, 1, 100, 16, 50, 26, 12, 10, 4, 114, 111, 111, 116, 18, 4, 114, 111, 111,
        116]"
  "enc_TableDescriptor example_table_99
     = [10, 5, 105, 116, 101, 109, 115, 16, 53, 26, 15, 10, 1, 97, 16, 1, 26, 6, 8, 1,
        16, 0, 24, 0, 32, 0, 26, 15, 10, 1, 98, 16, 2, 26, 6, 8, 1, 16, 0, 24, 0, 32,
        0, 32, 3, 42, 23, 10, 7, 112, 114, 105, 109, 97, 114, 121, 16, 1, 24, 1, 34, 1,
        97, 34, 1, 98, 40, 1, 40, 2, 56, 2, 66, 12, 10, 4, 114, 111, 111, 116, 18, 4,
        114, 111, 111, 116, 152, 6, 5]"
  using example_Marshal example_table_99_Marshal
  by (simp_all add: ColumnType_Marshal_enc ColumnDescriptor_Marshal_enc
      IndexDescriptor_Marshal_enc PrivilegeDescriptor_Marshal_enc TableDescriptor_Marshal_enc
      DatabaseDescriptor_Marshal_enc)

theorem Marshal_writes_exactly_Size_witness:
  "ColumnType_MarshalTo example_type (replicate 90 0xff)
     = Inr ([8, 1, 16, 0, 24, 0]
            @ replicate 84 0xff, 6)
   \<and> ColumnDescriptor_MarshalTo example_column_a (replicate 90 0xff)
     = Inr ([10, 1, 97, 16, 1, 26, 6, 8, 1, 16, 0, 24, 0, 32, 0]
            @ replicate 75 0xff, 15)
   \<and> IndexDescriptor_MarshalTo example_index (replicate 90 0xff)
     = Inr ([10, 7, 112, 114, 105, 109, 97, 114, 121, 16, 1, 24, 1, 34, 1, 97, 34, 1, 98,
             40, 1, 40, 2]
            @ replicate 67 0xff, 23)
   \<and> PrivilegeDescriptor_MarshalTo example_privileges (replicate 90 0xff)
     = Inr ([10, 4, 114, 111, 111, 116, 18, 4, 114, 111, 111, 116]
            @ replicate 78 0xff, 12)
   \<and> TableDescriptor_MarshalTo example_table_99 (replicate 90 0xff)
     = Inr ([10, 5, 105, 116, 101, 109, 115, 16, 53, 26, 15, 10, 1, 97, 16, 1, 26, 6, 8, 1,
             16, 0, 24, 0, 32, 0, 26, 15, 10, 1, 98, 16, 2, 26, 6, 8, 1, 16, 0, 24, 0, 32,
             0, 32, 3, 42, 23, 10, 7, 112, 114, 105, 109, 97, 114, 121, 16, 1, 24, 1, 34, 1,
             97, 34, 1, 98, 40, 1, 40, 2, 56, 2, 66, 12, 10, 4, 114, 111, 111, 116, 18, 4,
             114, 111, 111, 116, 152, 6, 5]
            @ replicate 1 0xff, 89)
   \<and> DatabaseDescriptor_MarshalTo example_database (replicate 90 0xff)
     = Inr ([10, 1, 100, 16, 50, 26, 12, 10, 4, 114, 111, 111, 116, 18, 4, 114, 111, 111,
             116]
            @ replicate 71 0xff, 19)"
  using Marshal_writes_exactly_Size [where ct = example_type and cd = example_column_a
      and ix = example_index and pd = example_privileges and td = example_table_99
      and dd = example_database and buf = "replicate 90 0xff"]
  by (simp add: example_Size example_table_99_Size example_enc)

section \<open>Boolean fields\<close>






section \<open>A failed Unmarshal and its receiver\<close>

















section \<open>The column names and column ids of an index\<close>





section \<open>Truncated input\<close>


























































end
